theory Spec2Isabelle
  imports Main "HOL-Library.Sublist"
begin

section \<open>JavaScript strings\<close>

text \<open>
  A JavaScript string is a sequence of UTF-16 code units. A code unit is modelled as a
  natural number, so every string the server can see is a \<open>jsstring\<close> (whose elements
  are below 65536), and a statement about all lists covers all of them. Literals of
  the source are written \<open>str ''...''\<close>.
\<close>

type_synonym jsstring = "nat list"

definition str :: "string \<Rightarrow> jsstring" where
  "str s = map of_char s"

text \<open>\<open>s.startsWith(p)\<close>, \<open>s.endsWith(p)\<close>, \<open>s.slice(1)\<close> and \<open>s.slice(0, -1)\<close>.\<close>

definition startsWith :: "jsstring \<Rightarrow> jsstring \<Rightarrow> bool" where
  "startsWith s p = prefix p s"

definition endsWith :: "jsstring \<Rightarrow> jsstring \<Rightarrow> bool" where
  "endsWith s p = suffix p s"

definition slice1 :: "jsstring \<Rightarrow> jsstring" where
  "slice1 s = tl s"

definition slice0m1 :: "jsstring \<Rightarrow> jsstring" where
  "slice0m1 s = butlast s"

text \<open>
  \<open>s.split(c)\<close> for a separator of one code unit: the pieces between the separators,
  one piece more than there are separators (\<open>"".split("?")\<close> is \<open>[""]\<close>).
\<close>

fun split :: "nat \<Rightarrow> jsstring \<Rightarrow> jsstring list" where
  "split c [] = [[]]"
| "split c (x # xs) =
     (if x = c then [] # split c xs
      else (case split c xs of
              [] \<Rightarrow> [[x]]
            | s # ss \<Rightarrow> (x # s) # ss))"

text \<open>\<open>segs.join(sep)\<close>.\<close>

fun join :: "jsstring \<Rightarrow> jsstring list \<Rightarrow> jsstring" where
  "join sep [] = []"
| "join sep [s] = s"
| "join sep (s # t # ss) = s @ sep @ join sep (t # ss)"

section \<open>decodeURIComponent\<close>

text \<open>
  The function of the ECMAScript standard (operation Decode with an empty set of
  preserved escapes): a code unit other than \<open>%\<close> is copied; \<open>%XX\<close> stands for an
  octet; an octet below 128 is the code unit itself; an octet with \<open>n\<close> leading one
  bits opens a UTF-8 sequence of \<open>n\<close> octets, each further one written \<open>%XX\<close> again,
  whose code point is appended in UTF-16. Every malformed input throws URIError:
  the value \<open>None\<close>.
\<close>

definition hexDigit :: "nat \<Rightarrow> nat option" where
  "hexDigit c =
     (if 48 \<le> c \<and> c \<le> 57 then Some (c - 48)
      else if 65 \<le> c \<and> c \<le> 70 then Some (c - 55)
      else if 97 \<le> c \<and> c \<le> 102 then Some (c - 87)
      else None)"

definition parseHexOctet :: "nat \<Rightarrow> nat \<Rightarrow> nat option" where
  "parseHexOctet h1 h2 =
     (case hexDigit h1 of
        None \<Rightarrow> None
      | Some a \<Rightarrow> (case hexDigit h2 of None \<Rightarrow> None | Some b \<Rightarrow> Some (16 * a + b)))"

definition leadingOnes :: "nat \<Rightarrow> nat" where
  "leadingOnes b =
     (if b < 128 then 0 else if b < 192 then 1 else if b < 224 then 2
      else if b < 240 then 3 else if b < 248 then 4 else 5)"

fun contOctets :: "nat \<Rightarrow> jsstring \<Rightarrow> nat list option" where
  "contOctets 0 s = Some []"
| "contOctets (Suc j) (p # h1 # h2 # r) =
     (if p \<noteq> 37 then None
      else (case parseHexOctet h1 h2 of
              None \<Rightarrow> None
            | Some b \<Rightarrow> (case contOctets j r of None \<Rightarrow> None | Some bs \<Rightarrow> Some (b # bs))))"
| "contOctets (Suc j) s = None"

definition isCont :: "nat \<Rightarrow> bool" where
  "isCont b = (128 \<le> b \<and> b < 192)"

text \<open>The code point of a well-formed UTF-8 sequence of two to four octets.\<close>

fun utf8CodePoint :: "nat list \<Rightarrow> nat option" where
  "utf8CodePoint [b0, b1] =
     (let v = (b0 - 192) * 64 + (b1 - 128)
      in if isCont b1 \<and> 128 \<le> v then Some v else None)"
| "utf8CodePoint [b0, b1, b2] =
     (let v = (b0 - 224) * 4096 + (b1 - 128) * 64 + (b2 - 128)
      in if isCont b1 \<and> isCont b2 \<and> 2048 \<le> v \<and> \<not> (55296 \<le> v \<and> v \<le> 57343)
         then Some v else None)"
| "utf8CodePoint [b0, b1, b2, b3] =
     (let v = (b0 - 240) * 262144 + (b1 - 128) * 4096 + (b2 - 128) * 64 + (b3 - 128)
      in if isCont b1 \<and> isCont b2 \<and> isCont b3 \<and> 65536 \<le> v \<and> v \<le> 1114111
         then Some v else None)"
| "utf8CodePoint bs = None"

definition utf16EncodeCodePoint :: "nat \<Rightarrow> jsstring" where
  "utf16EncodeCodePoint v =
     (if v < 65536 then [v]
      else [55296 + (v - 65536) div 1024, 56320 + (v - 65536) mod 1024])"

fun decodeURIComponent :: "jsstring \<Rightarrow> jsstring option" where
  "decodeURIComponent [] = Some []"
| "decodeURIComponent (c # s) =
     (if c \<noteq> 37 then map_option ((#) c) (decodeURIComponent s)
      else (case s of
              h1 # h2 # r \<Rightarrow>
                (case parseHexOctet h1 h2 of
                   None \<Rightarrow> None
                 | Some b \<Rightarrow>
                     if leadingOnes b = 0 then map_option ((#) b) (decodeURIComponent r)
                     else if leadingOnes b = 1 \<or> leadingOnes b > 4 then None
                     else (case contOctets (leadingOnes b - 1) r of
                             None \<Rightarrow> None
                           | Some octs \<Rightarrow>
                               (case utf8CodePoint (b # octs) of
                                  None \<Rightarrow> None
                                | Some v \<Rightarrow>
                                    map_option ((@) (utf16EncodeCodePoint v))
                                      (decodeURIComponent (drop (3 * (leadingOnes b - 1)) r)))))
            | _ \<Rightarrow> None))"

section \<open>UTF-8\<close>

text \<open>
  \<open>fs.readFileSync(path, "utf8")\<close> turns the bytes of the file into a string, and
  \<open>hash.update(content)\<close> turns a string into bytes again before it is hashed. Bytes are
  natural numbers below 256.

  Decoding follows the UTF-8 decoder of the Encoding standard: a byte that cannot start
  or continue a sequence ends the sequence, which becomes one U+FFFD, and the byte is
  looked at again. \<open>utf8Step b bs\<close> decodes the sequence that starts with \<open>b\<close>: the code
  units it gives and the number of bytes of \<open>bs\<close> it has used. A byte order mark is kept.
\<close>

definition replacementChar :: nat where
  "replacementChar = 65533"

definition lower3 :: "nat \<Rightarrow> nat" where
  "lower3 b = (if b = 224 then 160 else 128)"

definition upper3 :: "nat \<Rightarrow> nat" where
  "upper3 b = (if b = 237 then 159 else 191)"

definition lower4 :: "nat \<Rightarrow> nat" where
  "lower4 b = (if b = 240 then 144 else 128)"

definition upper4 :: "nat \<Rightarrow> nat" where
  "upper4 b = (if b = 244 then 143 else 191)"

definition decode2 :: "nat \<Rightarrow> nat list \<Rightarrow> jsstring \<times> nat" where
  "decode2 b bs =
     (case bs of
        [] \<Rightarrow> ([replacementChar], 0)
      | c1 # r1 \<Rightarrow>
          if isCont c1 then (utf16EncodeCodePoint ((b - 192) * 64 + (c1 - 128)), 1)
          else ([replacementChar], 0))"

definition decode3 :: "nat \<Rightarrow> nat list \<Rightarrow> jsstring \<times> nat" where
  "decode3 b bs =
     (case bs of
        [] \<Rightarrow> ([replacementChar], 0)
      | c1 # r1 \<Rightarrow>
          if \<not> (lower3 b \<le> c1 \<and> c1 \<le> upper3 b) then ([replacementChar], 0)
          else (case r1 of
                  [] \<Rightarrow> ([replacementChar], 1)
                | c2 # r2 \<Rightarrow>
                    if isCont c2
                    then (utf16EncodeCodePoint
                            ((b - 224) * 4096 + (c1 - 128) * 64 + (c2 - 128)), 2)
                    else ([replacementChar], 1)))"

definition decode4 :: "nat \<Rightarrow> nat list \<Rightarrow> jsstring \<times> nat" where
  "decode4 b bs =
     (case bs of
        [] \<Rightarrow> ([replacementChar], 0)
      | c1 # r1 \<Rightarrow>
          if \<not> (lower4 b \<le> c1 \<and> c1 \<le> upper4 b) then ([replacementChar], 0)
          else (case r1 of
                  [] \<Rightarrow> ([replacementChar], 1)
                | c2 # r2 \<Rightarrow>
                    if \<not> isCont c2 then ([replacementChar], 1)
                    else (case r2 of
                            [] \<Rightarrow> ([replacementChar], 2)
                          | c3 # r3 \<Rightarrow>
                              if isCont c3
                              then (utf16EncodeCodePoint
                                      ((b - 240) * 262144 + (c1 - 128) * 4096
                                       + (c2 - 128) * 64 + (c3 - 128)), 3)
                              else ([replacementChar], 2))))"

definition utf8Step :: "nat \<Rightarrow> nat list \<Rightarrow> jsstring \<times> nat" where
  "utf8Step b bs =
     (if b < 128 then ([b], 0)
      else if 194 \<le> b \<and> b \<le> 223 then decode2 b bs
      else if 224 \<le> b \<and> b \<le> 239 then decode3 b bs
      else if 240 \<le> b \<and> b \<le> 244 then decode4 b bs
      else ([replacementChar], 0))"

fun utf8Decode :: "nat list \<Rightarrow> jsstring" where
  "utf8Decode [] = []"
| "utf8Decode (b # bs) = fst (utf8Step b bs) @ utf8Decode (drop (snd (utf8Step b bs)) bs)"

text \<open>
  Encoding a string: a surrogate pair is one code point of four bytes, a surrogate alone
  becomes U+FFFD.
\<close>

definition encodeSurrogates :: "nat \<Rightarrow> nat \<Rightarrow> nat list" where
  "encodeSurrogates u l =
     (let v = 65536 + (u - 55296) * 1024 + (l - 56320)
      in [240 + v div 262144, 128 + (v div 4096) mod 64, 128 + (v div 64) mod 64,
          128 + v mod 64])"

definition encodeStep :: "nat \<Rightarrow> jsstring \<Rightarrow> nat list \<times> nat" where
  "encodeStep u us =
     (if u < 128 then ([u], 0)
      else if u < 2048 then ([192 + u div 64, 128 + u mod 64], 0)
      else if 55296 \<le> u \<and> u \<le> 56319 then
        (case us of
           [] \<Rightarrow> ([239, 191, 189], 0)
         | l # r \<Rightarrow>
             if 56320 \<le> l \<and> l \<le> 57343 then (encodeSurrogates u l, 1)
             else ([239, 191, 189], 0))
      else if 56320 \<le> u \<and> u \<le> 57343 then ([239, 191, 189], 0)
      else ([224 + u div 4096, 128 + (u div 64) mod 64, 128 + u mod 64], 0))"

fun utf8Encode :: "jsstring \<Rightarrow> nat list" where
  "utf8Encode [] = []"
| "utf8Encode (u # us) = fst (encodeStep u us) @ utf8Encode (drop (snd (encodeStep u us)) us)"

text \<open>
  Well-formed UTF-8: \<open>wellFormed b bs\<close> is the number of continuation bytes of the
  sequence that \<open>b\<close> starts, when there is one.
\<close>

definition wellFormed :: "nat \<Rightarrow> nat list \<Rightarrow> nat option" where
  "wellFormed b bs =
     (if b < 128 then Some 0
      else if 194 \<le> b \<and> b \<le> 223 then
        (case bs of
           c1 # r1 \<Rightarrow> if isCont c1 then Some 1 else None
         | _ \<Rightarrow> None)
      else if 224 \<le> b \<and> b \<le> 239 then
        (case bs of
           c1 # c2 # r2 \<Rightarrow>
             if lower3 b \<le> c1 \<and> c1 \<le> upper3 b \<and> isCont c2 then Some 2 else None
         | _ \<Rightarrow> None)
      else if 240 \<le> b \<and> b \<le> 244 then
        (case bs of
           c1 # c2 # c3 # r3 \<Rightarrow>
             if lower4 b \<le> c1 \<and> c1 \<le> upper4 b \<and> isCont c2 \<and> isCont c3 then Some 3
             else None
         | _ \<Rightarrow> None)
      else None)"

fun validUtf8 :: "nat list \<Rightarrow> bool" where
  "validUtf8 [] = True"
| "validUtf8 (b # bs) =
     (case wellFormed b bs of
        None \<Rightarrow> False
      | Some k \<Rightarrow> validUtf8 (drop k bs))"

section \<open>The path module (POSIX)\<close>

text \<open>
  Node's \<open>path\<close> module is not part of the repository. Its POSIX functions are modelled
  on the segments between slashes: empty segments and \<open>.\<close> are dropped, \<open>..\<close> removes
  the segment before it, and is kept only in a relative path that has nothing left to
  remove (\<open>allowAboveRoot\<close>).
\<close>

definition slash :: nat where
  "slash = 47"

definition dot :: jsstring where
  "dot = [46]"

definition dotdot :: jsstring where
  "dotdot = [46, 46]"

fun normalizeSegs :: "bool \<Rightarrow> jsstring list \<Rightarrow> jsstring list \<Rightarrow> jsstring list" where
  "normalizeSegs allowAboveRoot res [] = res"
| "normalizeSegs allowAboveRoot res (s # ss) =
     (if s = [] \<or> s = dot then normalizeSegs allowAboveRoot res ss
      else if s = dotdot then
        (if res \<noteq> [] \<and> last res \<noteq> dotdot then normalizeSegs allowAboveRoot (butlast res) ss
         else if allowAboveRoot then normalizeSegs allowAboveRoot (res @ [dotdot]) ss
         else normalizeSegs allowAboveRoot res ss)
      else normalizeSegs allowAboveRoot (res @ [s]) ss)"

definition normalizeString :: "jsstring \<Rightarrow> bool \<Rightarrow> jsstring" where
  "normalizeString path allowAboveRoot =
     join [slash] (normalizeSegs allowAboveRoot [] (split slash path))"

definition isAbsolute :: "jsstring \<Rightarrow> bool" where
  "isAbsolute path = (path \<noteq> [] \<and> hd path = slash)"

text \<open>\<open>path.posix.normalize\<close>.\<close>

definition posix_normalize :: "jsstring \<Rightarrow> jsstring" where
  "posix_normalize path =
     (if path = [] then dot
      else
        let trailingSeparator = (last path = slash);
            p = normalizeString path (\<not> isAbsolute path)
        in if p = [] then
             (if isAbsolute path then [slash]
              else if trailingSeparator then dot @ [slash] else dot)
           else
             (let p' = (if trailingSeparator then p @ [slash] else p)
              in if isAbsolute path then slash # p' else p'))"

section \<open>sanitiseUrl\<close>

text \<open>The function is the same in both variants of the server.\<close>

definition sanitiseUrl :: "jsstring \<Rightarrow> jsstring option" where
  "sanitiseUrl urlPath =
     (let clean = hd (split 35 (hd (split 63 urlPath)))
      in (case decodeURIComponent clean of
            None \<Rightarrow> None
          | Some clean \<Rightarrow>
             let clean = posix_normalize clean;
                 clean = (if \<not> startsWith clean [slash] then [slash] @ clean else clean);
                 clean = (if endsWith clean [slash] \<and> clean \<noteq> [slash]
                          then slice0m1 clean else clean);
                 clean = (if clean = [] then [slash] else clean)
             in Some clean))"


section \<open>The rest of the path module\<close>

text \<open>
  \<open>path.resolve\<close>: the arguments are taken from the right until an absolute one is
  met, the working directory coming last; the result is normalised.
\<close>

fun resolveLoop :: "jsstring list \<Rightarrow> jsstring \<Rightarrow> jsstring \<times> bool" where
  "resolveLoop [] resolvedPath = (resolvedPath, False)"
| "resolveLoop (p # ps) resolvedPath =
     (if p = [] then resolveLoop ps resolvedPath
      else if hd p = slash then (p @ [slash] @ resolvedPath, True)
      else resolveLoop ps (p @ [slash] @ resolvedPath))"

definition resolve :: "jsstring \<Rightarrow> jsstring list \<Rightarrow> jsstring" where
  "resolve cwd args =
     (case resolveLoop (rev args @ [cwd]) [] of
        (resolvedPath, resolvedAbsolute) \<Rightarrow>
          let p = normalizeString resolvedPath (\<not> resolvedAbsolute)
          in if resolvedAbsolute then slash # p
             else if p \<noteq> [] then p else dot)"

definition segments :: "jsstring \<Rightarrow> jsstring list" where
  "segments path = filter (\<lambda>s. s \<noteq> []) (split slash path)"

fun commonLen :: "jsstring list \<Rightarrow> jsstring list \<Rightarrow> nat" where
  "commonLen (x # xs) (y # ys) = (if x = y then Suc (commonLen xs ys) else 0)"
| "commonLen xs ys = 0"

text \<open>
  \<open>path.relative\<close>: both paths are resolved; the result climbs with \<open>..\<close> out of the
  segments of \<open>from\<close> that \<open>to\<close> does not share, then descends into the rest of \<open>to\<close>.
\<close>

definition relative :: "jsstring \<Rightarrow> jsstring \<Rightarrow> jsstring \<Rightarrow> jsstring" where
  "relative cwd from to =
     (if from = to then []
      else
        let from' = resolve cwd [from];
            to' = resolve cwd [to]
        in if from' = to' then []
           else
             let k = commonLen (segments from') (segments to')
             in join [slash]
                  (replicate (length (segments from') - k) dotdot @ drop k (segments to')))"

text \<open>\<open>path.join\<close>: the non-empty arguments, joined by a slash and normalised.\<close>

definition path_join :: "jsstring list \<Rightarrow> jsstring" where
  "path_join args =
     (let parts = filter (\<lambda>a. a \<noteq> []) args
      in if parts = [] then dot else posix_normalize (join [slash] parts))"

section \<open>The environment of the server\<close>

text \<open>
  What the server takes from outside: the directory of the script, the working
  directory, the template read at startup, the year, the file system, and the
  libraries (SHA-256 in hexadecimal, marked, sanitize-html), which are parameters.
  A call that may throw returns an option.
\<close>

record sanitize_options =
  allowedTags :: "jsstring list"
  allowedAttributes :: "(jsstring \<times> jsstring list) list"

record env =
  dirname :: jsstring
  cwd :: jsstring
  template :: jsstring
  COPYDATE :: jsstring
  existsSync :: "jsstring \<Rightarrow> bool"
  readFileSync :: "jsstring \<Rightarrow> jsstring option"
  sha256hex :: "jsstring \<Rightarrow> jsstring"
  marked_parse :: "jsstring \<Rightarrow> jsstring option"
  sanitizeHtml :: "jsstring \<Rightarrow> sanitize_options \<Rightarrow> jsstring option"
  defaults_allowedTags :: "jsstring list"

definition SITE_NAME :: jsstring where
  "SITE_NAME = str ''My Web Site''"

definition AUTHOR :: jsstring where
  "AUTHOR = str ''Chris Northcott''"

definition pagesDir :: "env \<Rightarrow> jsstring" where
  "pagesDir e = path_join [dirname e, str ''pages'']"

definition hashContent :: "env \<Rightarrow> jsstring \<Rightarrow> jsstring" where
  "hashContent e content = sha256hex e content"

section \<open>routeToFile\<close>

definition routeToFile :: "env \<Rightarrow> jsstring \<Rightarrow> jsstring option" where
  "routeToFile e cleanPath =
     (let name = (if cleanPath = [slash] then str ''index'' else slice1 cleanPath);
          candidate = resolve (cwd e) [pagesDir e, name @ str ''.md''];
          rel = relative (cwd e) (pagesDir e) candidate
      in if startsWith rel dotdot \<or> isAbsolute rel then None else Some candidate)"

text \<open>The legacy variant joins and compares prefixes of strings.\<close>

definition routeToFile_legacy :: "env \<Rightarrow> jsstring \<Rightarrow> jsstring option" where
  "routeToFile_legacy e cleanPath =
     (let name = (if cleanPath = [slash] then str ''index'' else slice1 cleanPath);
          file = path_join [pagesDir e, name @ str ''.md'']
      in if \<not> startsWith file (pagesDir e) then None else Some file)"

section \<open>String replacement\<close>

text \<open>
  \<open>replace\<close> and \<open>replaceAll\<close> with a string pattern expand the replacement text
  (GetSubstitution of the standard): \<open>$$\<close> is a dollar sign, \<open>$&\<close> the matched text,
  \<open>$`\<close> the text before the match and \<open>$'\<close> the text after it. There are no capture
  groups, so every other use of \<open>$\<close> stands for itself.
\<close>

fun getSubstitution :: "jsstring \<Rightarrow> jsstring \<Rightarrow> nat \<Rightarrow> jsstring \<Rightarrow> jsstring" where
  "getSubstitution matched s position [] = []"
| "getSubstitution matched s position [c] = [c]"
| "getSubstitution matched s position (c # d # r) =
     (if c = 36 \<and> d = 36 then 36 # getSubstitution matched s position r
      else if c = 36 \<and> d = 96 then take position s @ getSubstitution matched s position r
      else if c = 36 \<and> d = 38 then matched @ getSubstitution matched s position r
      else if c = 36 \<and> d = 39
        then drop (position + length matched) s @ getSubstitution matched s position r
      else c # getSubstitution matched s position (d # r))"

function replaceAllFrom ::
  "jsstring \<Rightarrow> jsstring \<Rightarrow> jsstring \<Rightarrow> nat \<Rightarrow> jsstring \<Rightarrow> jsstring" where
  "replaceAllFrom s searchValue replaceValue position rest =
     (if searchValue \<noteq> [] \<and> prefix searchValue rest then
        getSubstitution searchValue s position replaceValue
          @ replaceAllFrom s searchValue replaceValue (position + length searchValue)
              (drop (length searchValue) rest)
      else (case rest of
              [] \<Rightarrow> []
            | c # r \<Rightarrow> c # replaceAllFrom s searchValue replaceValue (position + 1) r))"
  by pat_completeness auto
termination
  by (relation "measure (\<lambda>(s, searchValue, replaceValue, position, rest). length rest)")
     (auto simp: prefix_def)

declare replaceAllFrom.simps [simp del]

text \<open>An empty pattern matches before every code unit and at the end.\<close>

fun replaceAllEmpty :: "jsstring \<Rightarrow> jsstring \<Rightarrow> nat \<Rightarrow> jsstring \<Rightarrow> jsstring" where
  "replaceAllEmpty s replaceValue position [] = getSubstitution [] s position replaceValue"
| "replaceAllEmpty s replaceValue position (c # r) =
     getSubstitution [] s position replaceValue
       @ c # replaceAllEmpty s replaceValue (position + 1) r"

definition replaceAll :: "jsstring \<Rightarrow> jsstring \<Rightarrow> jsstring \<Rightarrow> jsstring" where
  "replaceAll s searchValue replaceValue =
     (if searchValue = [] then replaceAllEmpty s replaceValue 0 s
      else replaceAllFrom s searchValue replaceValue 0 s)"

text \<open>\<open>replace\<close> with a string pattern changes the first occurrence only.\<close>

fun replaceFrom ::
  "jsstring \<Rightarrow> jsstring \<Rightarrow> jsstring \<Rightarrow> nat \<Rightarrow> jsstring \<Rightarrow> jsstring" where
  "replaceFrom s searchValue replaceValue position [] =
     (if searchValue = [] then getSubstitution searchValue s position replaceValue else [])"
| "replaceFrom s searchValue replaceValue position (c # r) =
     (if prefix searchValue (c # r) then
        getSubstitution searchValue s position replaceValue
          @ drop (length searchValue) (c # r)
      else c # replaceFrom s searchValue replaceValue (position + 1) r)"

definition replace :: "jsstring \<Rightarrow> jsstring \<Rightarrow> jsstring \<Rightarrow> jsstring" where
  "replace s searchValue replaceValue = replaceFrom s searchValue replaceValue 0 s"

section \<open>The cache and the calls to the collaborators\<close>

text \<open>
  The state of the process is the page cache (\<open>pageCache\<close>, a map from route to entry).
  Beside it the model records, in order, the calls made to the file system, to marked,
  to sanitize-html and to the template, so that "no second render" can be stated.
\<close>

record page =
  hash :: jsstring
  html :: jsstring
  etag :: jsstring

datatype call =
    ReadFile jsstring
  | MarkedParse jsstring
  | SanitizeHtml jsstring
  | RenderTemplate jsstring jsstring

datatype error = ReadError | MarkedError | SanitizeError

record state =
  pageCache :: "jsstring \<rightharpoonup> page"
  calls :: "call list"

definition emit :: "call \<Rightarrow> state \<Rightarrow> state" where
  "emit c st = st\<lparr>calls := calls st @ [c]\<rparr>"

section \<open>The hardened variant\<close>

definition navOptions :: "env \<Rightarrow> sanitize_options" where
  "navOptions e =
     \<lparr>allowedTags = defaults_allowedTags e,
      allowedAttributes = [(str ''a'', [str ''href'', str ''name'', str ''target''])]\<rparr>"

definition pageOptions :: "env \<Rightarrow> sanitize_options" where
  "pageOptions e =
     \<lparr>allowedTags = defaults_allowedTags e
        @ [str ''img'', str ''h1'', str ''h2'', str ''h3'', str ''pre'', str ''code''],
      allowedAttributes =
        [(str ''a'', [str ''href'', str ''name'', str ''target'']),
         (str ''img'', [str ''src'', str ''alt''])]\<rparr>"

definition navFile :: "env \<Rightarrow> jsstring" where
  "navFile e = path_join [dirname e, str ''nav.md'']"

text \<open>\<open>buildNav\<close>: every failure gives the empty navigation.\<close>

definition buildNav :: "env \<Rightarrow> state \<Rightarrow> jsstring \<times> state" where
  "buildNav e st =
     (if \<not> existsSync e (navFile e) then ([], st)
      else
        let st1 = emit (ReadFile (navFile e)) st
        in (case readFileSync e (navFile e) of
              None \<Rightarrow> ([], st1)
            | Some md \<Rightarrow>
                (let st2 = emit (MarkedParse md) st1
                 in (case marked_parse e md of
                       None \<Rightarrow> ([], st2)
                     | Some rawHtml \<Rightarrow>
                         (let st3 = emit (SanitizeHtml rawHtml) st2
                          in (case sanitizeHtml e rawHtml (navOptions e) of
                                None \<Rightarrow> ([], st3)
                              | Some nav \<Rightarrow> (nav, st3)))))))"

definition renderTemplate :: "env \<Rightarrow> jsstring \<Rightarrow> jsstring \<Rightarrow> state \<Rightarrow> jsstring \<times> state" where
  "renderTemplate e title content st =
     (let st0 = emit (RenderTemplate title content) st;
          t1 = replaceAll (template e) (str ''{{site}}'') SITE_NAME;
          t2 = replaceAll t1 (str ''{{author}}'') AUTHOR;
          t3 = replaceAll t2 (str ''{{copydate}}'') (COPYDATE e);
          t4 = replaceAll t3 (str ''{{title}}'') title;
          (nav, st1) = buildNav e st0;
          t5 = replaceAll t4 (str ''{{nav}}'') nav
      in (replaceAll t5 (str ''{{content}}'') content, st1))"

definition quote :: jsstring where
  "quote = [34]"

text \<open>\<open>cached && cached.hash === contentHash\<close>.\<close>

definition cacheHit :: "page option \<Rightarrow> jsstring \<Rightarrow> page option" where
  "cacheHit cached contentHash =
     (case cached of
        None \<Rightarrow> None
      | Some c \<Rightarrow> if hash c = contentHash then Some c else None)"

definition buildPage :: "env \<Rightarrow> jsstring \<Rightarrow> jsstring \<Rightarrow> state \<Rightarrow> (error + page) \<times> state" where
  "buildPage e route filePath st =
     (let st1 = emit (ReadFile filePath) st
      in (case readFileSync e filePath of
            None \<Rightarrow> (Inl ReadError, st1)
          | Some md \<Rightarrow>
              (let contentHash = hashContent e md
               in (case cacheHit (pageCache st1 route) contentHash of
                     Some cached \<Rightarrow> (Inr cached, st1)
                   | None \<Rightarrow>
                       (let st2 = emit (MarkedParse md) st1
                        in (case marked_parse e md of
                              None \<Rightarrow> (Inl MarkedError, st2)
                            | Some rawHtml \<Rightarrow>
                                (let st3 = emit (SanitizeHtml rawHtml) st2
                                 in (case sanitizeHtml e rawHtml (pageOptions e) of
                                       None \<Rightarrow> (Inl SanitizeError, st3)
                                     | Some htmlBody \<Rightarrow>
                                         (let title = (if route = [slash] then str ''index''
                                                       else slice1 route);
                                              (fullHtml, st4) =
                                                 renderTemplate e title htmlBody st3;
                                              result =
                                                 \<lparr>hash = contentHash, html = fullHtml,
                                                  etag = quote @ hashContent e fullHtml
                                                           @ quote\<rparr>
                                          in (Inr result,
                                              st4\<lparr>pageCache :=
                                                    (pageCache st4)(route \<mapsto> result)\<rparr>))))))))))"

record request =
  http_method :: jsstring
  url :: jsstring
  if_none_match :: "jsstring option"

record response =
  status :: nat
  headers :: "(jsstring \<times> jsstring) list"
  body :: jsstring

text \<open>A word between apostrophes, as the Content-Security-Policy writes its keywords.\<close>

definition sq :: "string \<Rightarrow> jsstring" where
  "sq s = [39] @ str s @ [39]"

definition okHeaders :: "jsstring \<Rightarrow> (jsstring \<times> jsstring) list" where
  "okHeaders tag =
     [(str ''Content-Type'', str ''text/html; charset=utf-8''),
      (str ''ETag'', tag),
      (str ''Cache-Control'', str ''public, max-age=0, must-revalidate''),
      (str ''X-Content-Type-Options'', str ''nosniff''),
      (str ''X-Frame-Options'', str ''DENY''),
      (str ''Referrer-Policy'', str ''no-referrer''),
      (str ''Content-Security-Policy'',
       str ''default-src '' @ sq ''self'' @ str ''; script-src '' @ sq ''none''
         @ str ''; object-src '' @ sq ''none'' @ str ''; base-uri '' @ sq ''none''
         @ str ''; frame-ancestors '' @ sq ''none'')]"

text \<open>
  The request handler. \<open>!cleanPath\<close> and \<open>!filePath\<close> hold of \<open>null\<close> and of the empty
  string.
\<close>

definition handler :: "env \<Rightarrow> request \<Rightarrow> state \<Rightarrow> response \<times> state" where
  "handler e req st =
     (if http_method req \<noteq> str ''GET'' then
        (\<lparr>status = 405,
          headers = [(str ''Content-Type'', str ''text/plain; charset=utf-8'')],
          body = str ''Method Not Allowed''\<rparr>, st)
      else (case sanitiseUrl (url req) of
        None \<Rightarrow> (\<lparr>status = 400, headers = [], body = str ''Bad Request''\<rparr>, st)
      | Some cleanPath \<Rightarrow>
          if cleanPath = [] then
            (\<lparr>status = 400, headers = [], body = str ''Bad Request''\<rparr>, st)
          else (case routeToFile e cleanPath of
            None \<Rightarrow> (\<lparr>status = 403, headers = [], body = str ''Forbidden''\<rparr>, st)
          | Some filePath \<Rightarrow>
              if filePath = [] then
                (\<lparr>status = 403, headers = [], body = str ''Forbidden''\<rparr>, st)
              else if \<not> existsSync e filePath then
                (\<lparr>status = 404, headers = [], body = str ''Not Found''\<rparr>, st)
              else (case buildPage e cleanPath filePath st of
                (Inl err, st') \<Rightarrow>
                  (\<lparr>status = 500, headers = [], body = str ''Internal Server Error''\<rparr>, st')
              | (Inr pg, st') \<Rightarrow>
                  if if_none_match req = Some (etag pg) then
                    (\<lparr>status = 304, headers = [], body = []\<rparr>, st')
                  else
                    (\<lparr>status = 200, headers = okHeaders (etag pg), body = html pg\<rparr>, st')))))"

section \<open>The legacy variant\<close>

record cached_legacy =
  hash_legacy :: jsstring
  html_legacy :: jsstring

record state_legacy =
  pageCache_legacy :: "jsstring \<rightharpoonup> cached_legacy"
  calls_legacy :: "call list"

definition emit_legacy :: "call \<Rightarrow> state_legacy \<Rightarrow> state_legacy" where
  "emit_legacy c st = st\<lparr>calls_legacy := calls_legacy st @ [c]\<rparr>"

definition renderTemplate_legacy :: "env \<Rightarrow> jsstring \<Rightarrow> jsstring \<Rightarrow> jsstring" where
  "renderTemplate_legacy e title content =
     (let t1 = replace (template e) (str ''{{site}}'') SITE_NAME;
          t2 = replace t1 (str ''{{author}}'') AUTHOR;
          t3 = replace t2 (str ''{{copydate}}'') (COPYDATE e);
          t4 = replace t3 (str ''{{title}}'') title
      in replace t4 (str ''{{content}}'') content)"

definition cacheHit_legacy :: "cached_legacy option \<Rightarrow> jsstring \<Rightarrow> cached_legacy option" where
  "cacheHit_legacy cached newHash =
     (case cached of
        None \<Rightarrow> None
      | Some c \<Rightarrow> if hash_legacy c = newHash then Some c else None)"

definition buildPage_legacy ::
  "env \<Rightarrow> jsstring \<Rightarrow> jsstring \<Rightarrow> state_legacy \<Rightarrow> (error + jsstring) \<times> state_legacy" where
  "buildPage_legacy e route filePath st =
     (let st1 = emit_legacy (ReadFile filePath) st
      in (case readFileSync e filePath of
            None \<Rightarrow> (Inl ReadError, st1)
          | Some md \<Rightarrow>
              (let newHash = hashContent e md
               in (case cacheHit_legacy (pageCache_legacy st1 route) newHash of
                     Some cached \<Rightarrow> (Inr (html_legacy cached), st1)
                   | None \<Rightarrow>
                       (let st2 = emit_legacy (MarkedParse md) st1
                        in (case marked_parse e md of
                              None \<Rightarrow> (Inl MarkedError, st2)
                            | Some htmlBody \<Rightarrow>
                           let title = (if route = [slash] then str ''index''
                                        else slice1 route);
                               st3 = emit_legacy (RenderTemplate title htmlBody) st2;
                               fullHtml = renderTemplate_legacy e title htmlBody
                           in (Inr fullHtml,
                               st3\<lparr>pageCache_legacy := (pageCache_legacy st3)
                                     (route \<mapsto> \<lparr>hash_legacy = newHash,
                                                 html_legacy = fullHtml\<rparr>)\<rparr>)))))))"

definition okHeaders_legacy :: "(jsstring \<times> jsstring) list" where
  "okHeaders_legacy =
     [(str ''Content-Type'', str ''text/html; charset=utf-8''),
      (str ''X-Content-Type-Options'', str ''nosniff''),
      (str ''X-Frame-Options'', str ''DENY''),
      (str ''Referrer-Policy'', str ''no-referrer'')]"

definition handler_legacy :: "env \<Rightarrow> request \<Rightarrow> state_legacy \<Rightarrow> response \<times> state_legacy" where
  "handler_legacy e req st =
     (if http_method req \<noteq> str ''GET'' \<and> http_method req \<noteq> str ''POST'' then
        (\<lparr>status = 405, headers = [], body = str ''Method Not Allowed''\<rparr>, st)
      else (case sanitiseUrl (url req) of
        None \<Rightarrow> (\<lparr>status = 400, headers = [], body = str ''Bad Request''\<rparr>, st)
      | Some cleanPath \<Rightarrow>
          if cleanPath = [] then
            (\<lparr>status = 400, headers = [], body = str ''Bad Request''\<rparr>, st)
          else (case routeToFile_legacy e cleanPath of
            None \<Rightarrow> (\<lparr>status = 403, headers = [], body = str ''Forbidden''\<rparr>, st)
          | Some filePath \<Rightarrow>
              if filePath = [] then
                (\<lparr>status = 403, headers = [], body = str ''Forbidden''\<rparr>, st)
              else if \<not> existsSync e filePath then
                (\<lparr>status = 404, headers = [], body = str ''Not Found''\<rparr>, st)
              else (case buildPage_legacy e cleanPath filePath st of
                (Inl err, st') \<Rightarrow>
                  (\<lparr>status = 500, headers = [], body = str ''Internal Server Error''\<rparr>, st')
              | (Inr fullHtml, st') \<Rightarrow>
                  (\<lparr>status = 200, headers = okHeaders_legacy, body = fullHtml\<rparr>, st')))))"

section \<open>Inside the content root\<close>

text \<open>
  A path lies within a directory when it is absolute, has no segment \<open>.\<close> or \<open>..\<close>,
  and its segments start with those of the directory and go on.
\<close>

definition within :: "jsstring \<Rightarrow> jsstring \<Rightarrow> bool" where
  "within root path =
     (isAbsolute path \<and> dot \<notin> set (segments path) \<and> dotdot \<notin> set (segments path)
      \<and> strict_prefix (segments root) (segments path))"

section \<open>A worked example\<close>

text \<open>
  The scenario of the specification: the script lives in \<open>/app\<close>, the content root holds
  \<open>index.md\<close> with the text \<open># Hi\<close>, there is no navigation file, and the template is
  \<open><title>{{title}}</title>{{content}}\<close>. The libraries are stand-ins: the digest is the
  content itself, marked wraps the source in a paragraph, and sanitize-html changes
  nothing.
\<close>

definition example_env :: env where
  "example_env =
     \<lparr>dirname = str ''/app'', cwd = str ''/app'',
      template = str ''<title>{{title}}</title>{{content}}'',
      COPYDATE = str ''2026'',
      existsSync = (\<lambda>p. p = str ''/app/pages/index.md''),
      readFileSync = (\<lambda>p. if p = str ''/app/pages/index.md'' then Some (str ''# Hi'') else None),
      sha256hex = (\<lambda>content. content),
      marked_parse = (\<lambda>md. Some (str ''<p>'' @ md @ str ''</p>'')),
      sanitizeHtml = (\<lambda>rawHtml options. Some rawHtml),
      defaults_allowedTags = [str ''p'']\<rparr>"

definition empty_state :: state where
  "empty_state = \<lparr>pageCache = Map.empty, calls = []\<rparr>"

definition empty_state_legacy :: state_legacy where
  "empty_state_legacy = \<lparr>pageCache_legacy = Map.empty, calls_legacy = []\<rparr>"

definition index_request :: request where
  "index_request = \<lparr>http_method = str ''GET'', url = str ''/'', if_none_match = None\<rparr>"

definition dotdot_request :: request where
  "dotdot_request = \<lparr>http_method = str ''GET'', url = str ''/a/../index'', if_none_match = None\<rparr>"

definition traversal_request :: request where
  "traversal_request =
     \<lparr>http_method = str ''GET'', url = str ''/../../etc/passwd'', if_none_match = None\<rparr>"

text \<open>The page of \<open>index.md\<close> and the state after it has been rendered for a route.\<close>

definition example_page :: page where
  "example_page =
     \<lparr>hash = str ''# Hi'',
      html = str ''<title>index</title><p># Hi</p>'',
      etag = quote @ str ''<title>index</title><p># Hi</p>'' @ quote\<rparr>"

definition example_calls :: "call list" where
  "example_calls =
     [ReadFile (str ''/app/pages/index.md''), MarkedParse (str ''# Hi''),
      SanitizeHtml (str ''<p># Hi</p>''), RenderTemplate (str ''index'') (str ''<p># Hi</p>'')]"

definition rendered_state :: "jsstring \<Rightarrow> state" where
  "rendered_state route = \<lparr>pageCache = [route \<mapsto> example_page], calls = example_calls\<rparr>"

definition example_cached_legacy :: cached_legacy where
  "example_cached_legacy =
     \<lparr>hash_legacy = str ''# Hi'', html_legacy = str ''<title>index</title><p># Hi</p>''\<rparr>"

definition rendered_state_legacy :: "jsstring \<Rightarrow> state_legacy" where
  "rendered_state_legacy route =
     \<lparr>pageCache_legacy = [route \<mapsto> example_cached_legacy],
      calls_legacy = [ReadFile (str ''/app/pages/index.md''), MarkedParse (str ''# Hi''),
                      RenderTemplate (str ''index'') (str ''<p># Hi</p>'')]\<rparr>"

text \<open>
  The same site seen through the bytes of its files: reading decodes them, and the digest
  (again a stand-in, the bytes themselves) is taken of the encoded string. One file system
  holds \<open>index.md\<close> with the bytes of \<open># Hi\<close>, the other with \<open>23 20 FF\<close>, which is not
  UTF-8.
\<close>

definition bytes_digest :: "nat list \<Rightarrow> jsstring" where
  "bytes_digest bytes = bytes"

definition byte_env :: "(jsstring \<Rightarrow> nat list option) \<Rightarrow> env" where
  "byte_env files =
     example_env
       \<lparr>existsSync := (\<lambda>p. files p \<noteq> None),
        readFileSync := (\<lambda>p. map_option utf8Decode (files p)),
        sha256hex := (\<lambda>content. bytes_digest (utf8Encode content))\<rparr>"

definition text_files :: "jsstring \<Rightarrow> nat list option" where
  "text_files p = (if p = str ''/app/pages/index.md'' then Some [35, 32, 72, 105] else None)"

definition binary_files :: "jsstring \<Rightarrow> nat list option" where
  "binary_files p = (if p = str ''/app/pages/index.md'' then Some [35, 32, 255] else None)"

text \<open>A cache that holds an older rendering of \<open>/\<close>.\<close>

definition stale_page :: page where
  "stale_page =
     \<lparr>hash = str ''# Old'',
      html = str ''<title>index</title><p># Old</p>'',
      etag = quote @ str ''<title>index</title><p># Old</p>'' @ quote\<rparr>"

definition stale_state :: state where
  "stale_state = \<lparr>pageCache = [str ''/'' \<mapsto> stale_page], calls = []\<rparr>"

definition stale_state_legacy :: state_legacy where
  "stale_state_legacy =
     \<lparr>pageCache_legacy =
        [str ''/'' \<mapsto> \<lparr>hash_legacy = str ''# Old'',
                          html_legacy = str ''<title>index</title><p># Old</p>''\<rparr>],
      calls_legacy = []\<rparr>"

text \<open>The same site after a navigation file has been added.\<close>

definition nav_exists :: "jsstring \<Rightarrow> bool" where
  "nav_exists p = (p = str ''/app/pages/index.md'' \<or> p = str ''/app/nav.md'')"

definition nav_read :: "jsstring \<Rightarrow> jsstring option" where
  "nav_read p =
     (if p = str ''/app/pages/index.md'' then Some (str ''# Hi'')
      else if p = str ''/app/nav.md'' then Some (str ''[Home](/)'')
      else None)"

definition nav_env :: env where
  "nav_env = example_env\<lparr>existsSync := nav_exists, readFileSync := nav_read\<rparr>"

text \<open>A template that names the title twice.\<close>

definition twice_env :: env where
  "twice_env = example_env\<lparr>template := str ''{{title}} {{title}}''\<rparr>"

text \<open>
  A site with a directory \<open>/app/pages-evil\<close> beside the content root, and a request in
  absolute form whose path climbs out of its host part.
\<close>

definition sibling_env :: env where
  "sibling_env =
     example_env
       \<lparr>existsSync := (\<lambda>p. p = str ''/app/pages-evil/x.md''),
        readFileSync := (\<lambda>p. if p = str ''/app/pages-evil/x.md'' then Some (str ''secret'')
                              else None)\<rparr>"

definition sibling_request :: request where
  "sibling_request =
     \<lparr>http_method = str ''GET'', url = str ''http://h/../../../pages-evil/x'',
      if_none_match = None\<rparr>"

section \<open>Splitting and joining\<close>

lemma split_not_Nil: "split c s \<noteq> []"
  by (induction s) (auto split: list.splits)

lemma split_Cons:
  "split c (x # xs) =
     (if x = c then [] # split c xs else (x # hd (split c xs)) # tl (split c xs))"
  using split_not_Nil [of c xs] by (cases "split c xs") auto

lemma hd_split: "hd (split c s) = takeWhile (\<lambda>x. x \<noteq> c) s"
  by (induction s) (auto simp: split_Cons simp del: split.simps(2))

lemma split_no_sep: "c \<notin> set s \<Longrightarrow> split c s = [s]"
  by (induction s) (auto simp: split_Cons simp del: split.simps(2))


lemma split_sep_free: "s \<in> set (split c xs) \<Longrightarrow> c \<notin> set s"
proof (induction xs arbitrary: s)
  case Nil
  then show ?case by simp
next
  case (Cons x xs)
  show ?case
  proof (cases "x = c")
    case True
    with Cons show ?thesis by auto
  next
    case False
    obtain t ts where ts: "split c xs = t # ts"
      using split_not_Nil [of c xs] by (cases "split c xs") auto
    with Cons False show ?thesis by auto
  qed
qed

lemma join_split: "join [c] (split c s) = s"
proof (induction s)
  case Nil
  then show ?case by simp
next
  case (Cons x xs)
  obtain t ts where ts: "split c xs = t # ts"
    using split_not_Nil [of c xs] by (cases "split c xs") auto
  with Cons show ?case by (cases ts) auto
qed

lemma split_sep_first: "c \<notin> set s \<Longrightarrow> split c (s @ c # r) = s # split c r"
  by (induction s) (auto simp: split_Cons simp del: split.simps(2))

lemma split_join:
  "ss \<noteq> [] \<Longrightarrow> \<forall>s\<in>set ss. c \<notin> set s \<Longrightarrow> split c (join [c] ss) = ss"
proof (induction ss)
  case Nil
  then show ?case by simp
next
  case (Cons s ss)
  show ?case
  proof (cases ss)
    case Nil
    with Cons.prems show ?thesis by (simp add: split_no_sep)
  next
    case (Cons t ts)
    with Cons.IH Cons.prems have "split c (join [c] ss) = ss" by simp
    with Cons Cons.prems show ?thesis
      by (simp add: split_sep_first del: split.simps(2))
  qed
qed

section \<open>Normalised segments\<close>

lemma startsWith_single: "startsWith s [c] = (s \<noteq> [] \<and> hd s = c)"
  by (cases s) (auto simp: startsWith_def)

lemma endsWith_single: "endsWith s [c] = (s \<noteq> [] \<and> last s = c)"
proof (cases s rule: rev_cases)
  case Nil
  then show ?thesis by (simp add: endsWith_def)
next
  case (snoc ys y)
  then show ?thesis by (auto simp: endsWith_def)
qed

lemma hd_not_in: "a \<noteq> [] \<Longrightarrow> c \<notin> set a \<Longrightarrow> hd a \<noteq> c"
  by (cases a) auto

lemma last_not_in: "a \<noteq> [] \<Longrightarrow> c \<notin> set a \<Longrightarrow> last a \<noteq> c"
  by (cases a rule: rev_cases) auto

lemma join_eq_Nil: "\<forall>s\<in>set ss. s \<noteq> [] \<Longrightarrow> (join sep ss = []) = (ss = [])"
  by (induction sep ss rule: join.induct) auto

lemma hd_join: "ss \<noteq> [] \<Longrightarrow> hd ss \<noteq> [] \<Longrightarrow> hd (join sep ss) = hd (hd ss)"
  by (induction sep ss rule: join.induct) auto

lemma last_join:
  "ss \<noteq> [] \<Longrightarrow> \<forall>s\<in>set ss. s \<noteq> [] \<Longrightarrow> last (join sep ss) = last (last ss)"
proof (induction ss)
  case Nil
  then show ?case by simp
next
  case (Cons s ss)
  then show ?case by (cases ss) (auto simp: join_eq_Nil)
qed

lemma normalizeSegs_plain:
  "\<forall>s\<in>set ss. s \<noteq> [] \<and> s \<noteq> dot \<and> s \<noteq> dotdot \<Longrightarrow> normalizeSegs a res ss = res @ ss"
  by (induction ss arbitrary: res) auto

lemma normalizeSegs_good:
  "\<forall>s\<in>set res. s \<noteq> [] \<and> slash \<notin> set s \<Longrightarrow> \<forall>s\<in>set ss. slash \<notin> set s
   \<Longrightarrow> \<forall>s\<in>set (normalizeSegs a res ss). s \<noteq> [] \<and> slash \<notin> set s"
proof (induction ss arbitrary: res)
  case Nil
  then show ?case by simp
next
  case (Cons s ss)
  have b: "\<forall>s\<in>set (butlast res). s \<noteq> [] \<and> slash \<notin> set s"
    using Cons.prems(1) by (auto dest: in_set_butlastD)
  have d: "\<forall>s\<in>set (res @ [dotdot]). s \<noteq> [] \<and> slash \<notin> set s"
    using Cons.prems(1) by (auto simp: dotdot_def slash_def)
  have e: "s \<noteq> [] \<Longrightarrow> \<forall>t\<in>set (res @ [s]). t \<noteq> [] \<and> slash \<notin> set t"
    using Cons.prems by auto
  have r: "\<forall>s\<in>set ss. slash \<notin> set s" using Cons.prems(2) by simp
  show ?case
    using Cons.IH [OF b r] Cons.IH [OF d r] Cons.IH [OF Cons.prems(1) r] Cons.IH [OF e r]
    by (simp del: set_append)
qed

lemma normalizeSegs_False_plain:
  "\<forall>s\<in>set res. s \<noteq> dot \<and> s \<noteq> dotdot
   \<Longrightarrow> \<forall>s\<in>set (normalizeSegs False res ss). s \<noteq> dot \<and> s \<noteq> dotdot"
proof (induction ss arbitrary: res)
  case Nil
  then show ?case by simp
next
  case (Cons s ss)
  have b: "\<forall>s\<in>set (butlast res). s \<noteq> dot \<and> s \<noteq> dotdot"
    using Cons.prems(1) by (auto dest: in_set_butlastD)
  have e: "s \<noteq> dot \<Longrightarrow> s \<noteq> dotdot \<Longrightarrow> \<forall>t\<in>set (res @ [s]). t \<noteq> dot \<and> t \<noteq> dotdot"
    using Cons.prems by auto
  show ?case
    using Cons.IH [OF b] Cons.IH [OF Cons.prems(1)] Cons.IH [OF e]
    by (simp del: set_append)
qed

text \<open>The segments produced by normalizeString.\<close>

lemma normalizeString_segs:
  "\<exists>N. normalizeString path a = join [slash] N \<and> (\<forall>s\<in>set N. s \<noteq> [] \<and> slash \<notin> set s)
        \<and> (\<not> a \<longrightarrow> (\<forall>s\<in>set N. s \<noteq> dot \<and> s \<noteq> dotdot))"
proof -
  let ?N = "normalizeSegs a [] (split slash path)"
  have "\<forall>s\<in>set ?N. s \<noteq> [] \<and> slash \<notin> set s"
    by (rule normalizeSegs_good) (auto dest: split_sep_free)
  moreover have "\<not> a \<longrightarrow> (\<forall>s\<in>set ?N. s \<noteq> dot \<and> s \<noteq> dotdot)"
    using normalizeSegs_False_plain [of "[]" "split slash path"] by auto
  ultimately show ?thesis unfolding normalizeString_def by blast
qed

section \<open>The results of sanitiseUrl\<close>

lemma sanitiseUrl_shape:
  assumes "sanitiseUrl p = Some r"
  shows "\<exists>N. r = slash # join [slash] N \<and> (\<forall>s\<in>set N. s \<noteq> [] \<and> slash \<notin> set s)"
proof -
  define finish where "finish = (\<lambda>n.
     let clean = (if \<not> startsWith n [slash] then [slash] @ n else n);
         clean = (if endsWith clean [slash] \<and> clean \<noteq> [slash] then slice0m1 clean else clean)
     in (if clean = [] then [slash] else clean))"
  from assms obtain c where r: "r = finish (posix_normalize c)"
    by (auto simp: sanitiseUrl_def Let_def finish_def split: option.splits)
  have f_root: "finish [slash] = [slash]"
    by (simp add: finish_def startsWith_single endsWith_single)
  have f_dot: "finish dot = slash # dot" "finish (dot @ [slash]) = slash # dot"
    by (simp_all add: finish_def startsWith_single endsWith_single dot_def slash_def slice0m1_def)
  have f_path: "finish (slash # P) = slash # P" "finish (slash # P @ [slash]) = slash # P"
    "finish P = slash # P" "finish (P @ [slash]) = slash # P"
    if "P \<noteq> []" "hd P \<noteq> slash" "last P \<noteq> slash" for P
    using that
    by (simp_all add: finish_def startsWith_single endsWith_single slice0m1_def)
  have dotgood: "\<forall>s\<in>set [dot]. s \<noteq> [] \<and> slash \<notin> set s"
    by (simp add: dot_def slash_def)
  have rdot: "slash # dot = slash # join [slash] [dot]" by simp
  have rroot: "[slash] = slash # join [slash] []" by simp
  obtain N where N: "normalizeString c (\<not> isAbsolute c) = join [slash] N"
    and good: "\<forall>s\<in>set N. s \<noteq> [] \<and> slash \<notin> set s"
    using normalizeString_segs by blast
  have "r = slash # dot \<or> r = [slash] \<or> r = slash # join [slash] N"
  proof (cases "c = []")
    case True
    then show ?thesis by (simp add: r posix_normalize_def f_dot)
  next
    case False
    show ?thesis
    proof (cases "N = []")
      case True
      with False N show ?thesis
        by (simp add: r posix_normalize_def f_dot f_root)
    next
      case nonempty: False
      have j: "join [slash] N \<noteq> []" using good nonempty by (simp add: join_eq_Nil)
      have h: "hd (join [slash] N) \<noteq> slash"
        using good nonempty by (cases N) (auto simp: hd_join dest: hd_not_in)
      have l: "last (join [slash] N) \<noteq> slash"
        using good nonempty last_join [of N "[slash]"] last_not_in [of "last N" slash]
        by simp
      show ?thesis
        using False N j f_path [OF j h l]
        by (simp add: r posix_normalize_def Let_def)
    qed
  qed
  then show ?thesis
    using dotgood rdot rroot good by (metis empty_iff empty_set)
qed

section \<open>Idempotence of sanitiseUrl\<close>

lemmas ev = str_def dot_def dotdot_def slash_def startsWith_def endsWith_def slice0m1_def
  slice1_def Let_def hexDigit_def parseHexOctet_def leadingOnes_def suffix_to_prefix
  isAbsolute_def normalizeString_def posix_normalize_def sanitiseUrl_def

lemma decodeURIComponent_plain: "37 \<notin> set s \<Longrightarrow> decodeURIComponent s = Some s"
  by (induction s) auto

lemma hd_split_plain: "c \<notin> set s \<Longrightarrow> hd (split c s) = s"
  by (simp add: split_no_sep)

lemma segments_join:
  assumes "\<forall>s\<in>set N. s \<noteq> [] \<and> slash \<notin> set s"
  shows "segments (slash # join [slash] N) = N"
proof (cases "N = []")
  case True
  then show ?thesis by (simp add: segments_def)
next
  case False
  with assms have "split slash (join [slash] N) = N"
    by (simp add: split_join)
  moreover have "filter (\<lambda>s. s \<noteq> []) N = N"
    using assms by (simp add: filter_id_conv)
  ultimately show ?thesis
    by (simp add: segments_def)
qed

lemma normalizeString_join:
  assumes "\<forall>s\<in>set N. s \<noteq> [] \<and> slash \<notin> set s" "dot \<notin> set N" "dotdot \<notin> set N"
  shows "normalizeString (slash # join [slash] N) a = join [slash] N"
proof (cases "N = []")
  case True
  then show ?thesis by (simp add: normalizeString_def)
next
  case False
  with assms have s: "split slash (join [slash] N) = N"
    by (simp add: split_join)
  have "\<forall>s\<in>set N. s \<noteq> [] \<and> s \<noteq> dot \<and> s \<noteq> dotdot"
    using assms by auto
  then have "normalizeSegs a [] N = [] @ N"
    by (rule normalizeSegs_plain)
  with s show ?thesis
    by (simp add: normalizeString_def)
qed

text \<open>
  Claim C6, as the code has it: a second pass of the sanitizer decodes, cuts and
  normalises again, so it returns its argument only where there is nothing left to do.
  If \<open>sanitiseUrl p\<close> is the string \<open>r\<close>, and \<open>r\<close> holds no \<open>%\<close>, \<open>?\<close> or \<open>#\<close> and no
  segment \<open>.\<close> or \<open>..\<close>, then \<open>sanitiseUrl r\<close> is \<open>r\<close>.
\<close>

theorem sanitiseUrl_idempotent_on_plain_results:
  assumes "sanitiseUrl p = Some r"
    and "37 \<notin> set r" and "63 \<notin> set r" and "35 \<notin> set r"
    and "dot \<notin> set (segments r)" and "dotdot \<notin> set (segments r)"
  shows "sanitiseUrl r = Some r"
proof -
  obtain N where r: "r = slash # join [slash] N"
    and good: "\<forall>s\<in>set N. s \<noteq> [] \<and> slash \<notin> set s"
    using sanitiseUrl_shape [OF assms(1)] by blast
  have seg: "segments r = N"
    using good by (simp add: r segments_join)
  have ns: "normalizeString r False = join [slash] N"
    unfolding r using good assms(5,6) seg by (intro normalizeString_join) auto
  have q: "hd (split 35 (hd (split 63 r))) = r"
    using assms(3,4) by (simp add: hd_split_plain)
  have d: "decodeURIComponent r = Some r"
    using assms(2) by (rule decodeURIComponent_plain)
  have abs: "isAbsolute r" by (simp add: r isAbsolute_def)
  have norm: "posix_normalize r = r"
  proof (cases "N = []")
    case True
    then show ?thesis
      using ns abs by (simp add: r posix_normalize_def)
  next
    case False
    have j: "join [slash] N \<noteq> []" using good False by (simp add: join_eq_Nil)
    have l: "last (join [slash] N) \<noteq> slash"
      using good False last_join [of N "[slash]"] last_not_in [of "last N" slash]
      by simp
    have "last r \<noteq> slash" using j l by (simp add: r)
    then show ?thesis
      using ns abs j by (simp add: posix_normalize_def Let_def) (simp add: r)
  qed
  have fin: "\<not> (endsWith r [slash] \<and> r \<noteq> [slash])"
  proof (cases "N = []")
    case True
    then show ?thesis by (simp add: r)
  next
    case False
    have j: "join [slash] N \<noteq> []" using good False by (simp add: join_eq_Nil)
    have l: "last (join [slash] N) \<noteq> slash"
      using good False last_join [of N "[slash]"] last_not_in [of "last N" slash]
      by simp
    then show ?thesis using j by (simp add: r endsWith_single)
  qed
  have st: "startsWith r [slash]" by (simp add: r startsWith_single)
  have ne: "r \<noteq> []" by (simp add: r)
  show ?thesis
    unfolding sanitiseUrl_def q
    using d norm fin st ne by (auto simp: Let_def)
qed

text \<open>The theorem at a URL with a query, a fragment and segments to normalise.\<close>

theorem sanitiseUrl_idempotent_witness:
  "sanitiseUrl (str ''/a//b/./c/../d/?x=1#y'') = Some (str ''/a/b/d'')
   \<and> sanitiseUrl (str ''/a/b/d'') = Some (str ''/a/b/d'')"
proof -
  have p: "sanitiseUrl (str ''/a//b/./c/../d/?x=1#y'') = Some (str ''/a/b/d'')"
    by (simp add: ev)
  have "sanitiseUrl (str ''/a/b/d'') = Some (str ''/a/b/d'')"
    by (rule sanitiseUrl_idempotent_on_plain_results [OF p])
       (simp_all add: str_def segments_def dot_def dotdot_def slash_def)
  with p show ?thesis by simp
qed

text \<open>
  Idempotence as stated fails: \<open>/%2541\<close> is sanitised to \<open>/%41\<close>, and that to \<open>/A\<close>.
\<close>

theorem sanitiseUrl_not_idempotent:
  "sanitiseUrl (str ''/%2541'') = Some (str ''/%41'')
   \<and> sanitiseUrl (str ''/%41'') = Some (str ''/A'')"
  by (simp add: ev)

text \<open>
  The second pass may also throw, cut at a decoded \<open>?\<close>, or drop a leading \<open>..\<close>.
\<close>

lemma sanitiseUrl_second_pass_may_throw:
  "sanitiseUrl (str ''/%25'') = Some (str ''/%'') \<and> sanitiseUrl (str ''/%'') = None"
  by (simp add: ev)

lemma sanitiseUrl_second_pass_may_cut:
  "sanitiseUrl (str ''/a%3Fb'') = Some (str ''/a?b'')
   \<and> sanitiseUrl (str ''/a?b'') = Some (str ''/a'')"
  by (simp add: ev)

lemma sanitiseUrl_second_pass_may_climb:
  "sanitiseUrl (str ''*/../../x'') = Some (str ''/../x'')
   \<and> sanitiseUrl (str ''/../x'') = Some (str ''/x'')"
  by (simp add: ev)

text \<open>
  Claim C7: \<open>sanitiseUrl("/a/b/")\<close> equals \<open>sanitiseUrl("/a/b")\<close>, and \<open>sanitiseUrl("")\<close>
  should be \<open>/\<close>. The first half holds. The second does not: \<open>normalize("")\<close> is
  \<open>.\<close>, a slash is put before it, and the test \<open>clean === ""\<close> that follows can never hold,
  so the result is \<open>/.\<close>.
\<close>

theorem sanitiseUrl_trailing_slash_and_empty:
  "sanitiseUrl (str ''/a/b/'') = sanitiseUrl (str ''/a/b'')
   \<and> sanitiseUrl (str '''') = Some (str ''/.'')"
  by (simp add: ev)

section \<open>Paths that resolve and join\<close>

lemma split_append_sep: "split c (a @ c # b) = split c a @ split c b"
proof (induction a)
  case Nil
  then show ?case by simp
next
  case (Cons x a)
  then show ?case
    using split_not_Nil [of c a]
    by (simp add: split_Cons del: split.simps(2))
qed

lemma normalizeSegs_append:
  "normalizeSegs a res (xs @ ys) = normalizeSegs a (normalizeSegs a res xs) ys"
  by (induction xs arbitrary: res) auto

lemma normalizeSegs_snoc_empty: "normalizeSegs a res (xs @ [[]]) = normalizeSegs a res xs"
  by (simp add: normalizeSegs_append)

lemma normalizeSegs_snoc_plain:
  "s \<noteq> [] \<Longrightarrow> s \<noteq> dot \<Longrightarrow> s \<noteq> dotdot
   \<Longrightarrow> normalizeSegs a res (xs @ [s]) = normalizeSegs a res xs @ [s]"
  by (simp add: normalizeSegs_append)

lemma normalizeSegs_False_result:
  assumes "N = normalizeSegs False [] (split slash p)"
  shows "\<forall>s\<in>set N. s \<noteq> [] \<and> slash \<notin> set s" and "dot \<notin> set N" and "dotdot \<notin> set N"
proof -
  show "\<forall>s\<in>set N. s \<noteq> [] \<and> slash \<notin> set s"
    unfolding assms by (rule normalizeSegs_good) (auto dest: split_sep_free)
  have "\<forall>s\<in>set N. s \<noteq> dot \<and> s \<noteq> dotdot"
    unfolding assms by (rule normalizeSegs_False_plain) simp
  then show "dot \<notin> set N" and "dotdot \<notin> set N" by auto
qed

lemma posix_normalize_absolute:
  assumes "isAbsolute p" and "last p \<noteq> slash"
  shows "posix_normalize p = slash # join [slash] (normalizeSegs False [] (split slash p))"
  using assms
  by (auto simp: posix_normalize_def Let_def normalizeString_def isAbsolute_def)

lemma path_join_absolute:
  assumes "isAbsolute d" and "x \<noteq> []" and "slash \<notin> set x" and "x \<noteq> dot" and "x \<noteq> dotdot"
  shows "path_join [d, x]
           = slash # join [slash] (normalizeSegs False [] (split slash d) @ [x])"
proof -
  have d: "d \<noteq> []" using assms(1) by (simp add: isAbsolute_def)
  have abs: "isAbsolute (d @ slash # x)" using assms(1) by (simp add: isAbsolute_def)
  have l: "last (d @ slash # x) \<noteq> slash"
    using assms(2,3) last_not_in [of x slash] by simp
  have s: "split slash (d @ slash # x) = split slash d @ [x]"
    using assms(3) by (simp add: split_append_sep split_no_sep)
  have "path_join [d, x] = posix_normalize (d @ slash # x)"
    using d assms(2) by (simp add: path_join_def)
  also have "\<dots> = slash # join [slash] (normalizeSegs False [] (split slash d @ [x]))"
    using posix_normalize_absolute [OF abs l] s by simp
  finally show ?thesis
    using assms(2,4,5) by (simp add: normalizeSegs_snoc_plain)
qed

lemma pagesDir_shape:
  assumes "isAbsolute (dirname e)"
  shows "pagesDir e
           = slash # join [slash] (normalizeSegs False [] (split slash (dirname e)) @ [str ''pages''])"
  unfolding pagesDir_def
  by (rule path_join_absolute [OF assms]) (simp_all add: str_def slash_def dot_def dotdot_def)

lemma navFile_shape:
  assumes "isAbsolute (dirname e)"
  shows "navFile e
           = slash # join [slash] (normalizeSegs False [] (split slash (dirname e)) @ [str ''nav.md''])"
  unfolding navFile_def
  by (rule path_join_absolute [OF assms]) (simp_all add: str_def slash_def dot_def dotdot_def)

lemma split_trailing_sep: "split c (a @ [c]) = split c a @ [[]]"
  using split_append_sep [of c a "[]"] by simp

text \<open>Resolving against an absolute directory.\<close>

lemma resolve_two:
  assumes "isAbsolute d" and "x \<noteq> []"
  shows "resolve wd [d, x]
           = slash # join [slash] (normalizeSegs False []
               (split slash (if hd x = slash then x else d @ slash # x)))"
proof -
  have d: "d \<noteq> []" "hd d = slash" using assms(1) by (simp_all add: isAbsolute_def)
  show ?thesis
  proof (cases "hd x = slash")
    case True
    then show ?thesis
      using assms(2) split_trailing_sep [of slash x]
      by (simp add: resolve_def normalizeString_def normalizeSegs_snoc_empty)
  next
    case False
    then show ?thesis
      using assms(2) d split_trailing_sep [of slash "d @ slash # x"]
      by (simp add: resolve_def normalizeString_def normalizeSegs_snoc_empty)
  qed
qed

lemma resolve_normal:
  assumes "\<forall>s\<in>set S. s \<noteq> [] \<and> slash \<notin> set s" and "dot \<notin> set S" and "dotdot \<notin> set S"
  shows "resolve wd [slash # join [slash] S] = slash # join [slash] S"
proof -
  have n: "normalizeString (slash # join [slash] S) False = join [slash] S"
    using assms by (rule normalizeString_join)
  have "split slash ((slash # join [slash] S) @ [slash])
          = split slash (slash # join [slash] S) @ [[]]"
    by (rule split_trailing_sep)
  then have "normalizeString ((slash # join [slash] S) @ [slash]) False
               = normalizeString (slash # join [slash] S) False"
    unfolding normalizeString_def by (simp only: normalizeSegs_snoc_empty)
  with n show ?thesis
    by (simp add: resolve_def)
qed

lemma commonLen_le: "commonLen xs ys \<le> length xs"
  by (induction xs ys rule: commonLen.induct) auto

lemma commonLen_prefix: "commonLen xs ys = length xs \<Longrightarrow> prefix xs ys"
  by (induction xs ys rule: commonLen.induct) (auto split: if_splits)

lemma join_dotdot_first: "startsWith (join [slash] (dotdot # xs)) dotdot"
  by (cases xs) (auto simp: startsWith_def)

lemma relative_normal:
  assumes F: "\<forall>s\<in>set F. s \<noteq> [] \<and> slash \<notin> set s" "dot \<notin> set F" "dotdot \<notin> set F"
    and T: "\<forall>s\<in>set T. s \<noteq> [] \<and> slash \<notin> set s" "dot \<notin> set T" "dotdot \<notin> set T"
    and rel: "\<not> startsWith (relative wd (slash # join [slash] F) (slash # join [slash] T)) dotdot"
  shows "prefix F T"
proof (cases "slash # join [slash] F = slash # join [slash] T")
  case True
  then have "segments (slash # join [slash] F) = segments (slash # join [slash] T)" by simp
  then have "F = T" using F(1) T(1) by (simp add: segments_join)
  then show ?thesis by simp
next
  case False
  let ?k = "commonLen F T"
  have r: "relative wd (slash # join [slash] F) (slash # join [slash] T)
             = join [slash] (replicate (length F - ?k) dotdot @ drop ?k T)"
    using False F T
    by (simp add: relative_def resolve_normal segments_join Let_def)
  have "\<not> ?k < length F"
  proof
    assume "?k < length F"
    then obtain n where "length F - ?k = Suc n" by (cases "length F - ?k") auto
    with r have "startsWith (relative wd (slash # join [slash] F) (slash # join [slash] T)) dotdot"
      by (simp add: join_dotdot_first)
    with rel show False by simp
  qed
  with commonLen_le [of F T] have "?k = length F" by simp
  then show ?thesis by (rule commonLen_prefix)
qed

lemma split_append_plain:
  "c \<notin> set b \<Longrightarrow> split c (a @ b) = butlast (split c a) @ [last (split c a) @ b]"
proof (induction a)
  case Nil
  then show ?case by (simp add: split_no_sep)
next
  case (Cons x a)
  obtain s ss where s: "split c a = s # ss"
    using split_not_Nil [of c a] by (cases "split c a") auto
  with Cons show ?case
    by (cases ss) (auto simp: split_Cons simp del: split.simps(2))
qed

lemma md_segment:
  shows "t @ str ''.md'' \<noteq> []" and "t @ str ''.md'' \<noteq> dot" and "t @ str ''.md'' \<noteq> dotdot"
    and "t @ str ''.md'' \<noteq> str ''pages''"
proof -
  have l: "last (t @ str ''.md'') = 100" by (simp add: str_def)
  show "t @ str ''.md'' \<noteq> []" by (simp add: str_def)
  show "t @ str ''.md'' \<noteq> dot" using l by (auto simp: dot_def)
  show "t @ str ''.md'' \<noteq> dotdot" using l by (auto simp: dotdot_def)
  show "t @ str ''.md'' \<noteq> str ''pages''"
  proof
    assume "t @ str ''.md'' = str ''pages''"
    then have "last (t @ str ''.md'') = last (str ''pages'')" by simp
    with l show False by (simp add: str_def)
  qed
qed

lemma normalizeSegs_last_md:
  "\<exists>Y t. normalizeSegs a [] (split slash (x @ str ''.md'')) = Y @ [t @ str ''.md'']"
proof -
  have m: "slash \<notin> set (str ''.md'')" by (simp add: str_def slash_def)
  define t where "t = last (split slash x)"
  have "split slash (x @ str ''.md'') = butlast (split slash x) @ [t @ str ''.md'']"
    unfolding t_def by (rule split_append_plain [OF m])
  then have "normalizeSegs a [] (split slash (x @ str ''.md''))
          = normalizeSegs a [] (butlast (split slash x)) @ [t @ str ''.md'']"
    using normalizeSegs_snoc_plain [OF md_segment(1,2,3)]
    by simp
  then show ?thesis by blast
qed

text \<open>
  The guard of \<open>routeToFile\<close>: whatever the path given, a result lies within the content
  root, and is not the navigation file.
\<close>

lemma routeToFile_within:
  assumes "isAbsolute (dirname e)" and "routeToFile e cleanPath = Some filePath"
  shows "within (pagesDir e) filePath"
proof -
  define name where "name = (if cleanPath = [slash] then str ''index'' else slice1 cleanPath)"
  define pre where "pre = (if hd (name @ str ''.md'') = slash then name
                           else pagesDir e @ slash # name)"
  define F where "F = normalizeSegs False [] (split slash (dirname e)) @ [str ''pages'']"
  define T where "T = normalizeSegs False [] (split slash (pre @ str ''.md''))"
  have D: "pagesDir e = slash # join [slash] F"
    unfolding F_def by (rule pagesDir_shape [OF assms(1)])
  have absD: "isAbsolute (pagesDir e)" by (simp add: D isAbsolute_def)
  have x: "name @ str ''.md'' \<noteq> []" by (rule md_segment(1))
  have rp: "(if hd (name @ str ''.md'') = slash then name @ str ''.md''
             else pagesDir e @ slash # name @ str ''.md'') = pre @ str ''.md''"
    by (simp add: pre_def)
  have cand: "resolve (cwd e) [pagesDir e, name @ str ''.md''] = slash # join [slash] T"
    unfolding T_def using resolve_two [OF absD x, of "cwd e"] by (simp only: rp)
  have Fg: "\<forall>s\<in>set F. s \<noteq> [] \<and> slash \<notin> set s" "dot \<notin> set F" "dotdot \<notin> set F"
    using normalizeSegs_False_result [OF refl, of "dirname e"]
    by (auto simp: F_def str_def slash_def dot_def dotdot_def)
  have Tg: "\<forall>s\<in>set T. s \<noteq> [] \<and> slash \<notin> set s" "dot \<notin> set T" "dotdot \<notin> set T"
    using normalizeSegs_False_result [OF T_def] by blast+
  from assms(2) have f: "filePath = slash # join [slash] T"
    and rel: "\<not> startsWith (relative (cwd e) (pagesDir e) (slash # join [slash] T)) dotdot"
    unfolding routeToFile_def Let_def name_def [symmetric] cand by (auto split: if_splits)
  have pre: "prefix F T"
    using rel unfolding D by (rule relative_normal [OF Fg Tg])
  obtain Y t where Y: "T = Y @ [t @ str ''.md'']"
    unfolding T_def using normalizeSegs_last_md by blast
  have "last F = str ''pages''" by (simp add: F_def)
  moreover have "last T = t @ str ''.md''" by (simp add: Y)
  ultimately have "F \<noteq> T" using md_segment(4) [of t] by auto
  with pre have "strict_prefix F T" by (simp add: strict_prefix_def)
  then show ?thesis
    using Fg Tg by (simp add: within_def f D segments_join isAbsolute_def)
qed

lemma routeToFile_not_navFile:
  assumes "isAbsolute (dirname e)" and "routeToFile e cleanPath = Some filePath"
  shows "filePath \<noteq> navFile e"
proof
  assume eq: "filePath = navFile e"
  let ?D = "normalizeSegs False [] (split slash (dirname e))"
  have g: "\<forall>s\<in>set (?D @ [str ''nav.md'']). s \<noteq> [] \<and> slash \<notin> set s"
    "\<forall>s\<in>set (?D @ [str ''pages'']). s \<noteq> [] \<and> slash \<notin> set s"
    using normalizeSegs_False_result(1) [OF refl, of "dirname e"]
    by (auto simp: str_def slash_def)
  have "strict_prefix (segments (pagesDir e)) (segments (navFile e))"
    using routeToFile_within [OF assms] by (simp add: within_def eq)
  then have "prefix (?D @ [str ''pages'']) (?D @ [str ''nav.md''])"
    using g by (simp add: pagesDir_shape [OF assms(1)] navFile_shape [OF assms(1)]
        segments_join strict_prefix_def)
  then show False by (simp add: str_def)
qed

section \<open>Decoding and encoding well-formed UTF-8\<close>

lemma digits2:
  fixes x y :: nat
  assumes "y < 64"
  shows "(x * 64 + y) div 64 = x" and "(x * 64 + y) mod 64 = y"
  using assms by simp_all

lemma digits3:
  fixes x y z :: nat
  assumes "y < 64" and "z < 64"
  shows "(x * 4096 + y * 64 + z) div 4096 = x"
    and "(x * 4096 + y * 64 + z) div 64 mod 64 = y"
    and "(x * 4096 + y * 64 + z) mod 64 = z"
proof -
  define n where "n = x * 64 + y"
  have e: "x * 4096 + y * 64 + z = n * 64 + z" by (simp add: n_def)
  have d: "(n * 64 + z) div 64 = n" using assms(2) by (rule digits2(1))
  show "(x * 4096 + y * 64 + z) mod 64 = z"
    unfolding e using assms(2) by (rule digits2(2))
  show "(x * 4096 + y * 64 + z) div 64 mod 64 = y"
    unfolding e d unfolding n_def using assms(1) by (rule digits2(2))
  have "(n * 64 + z) div 4096 = (n * 64 + z) div 64 div 64"
    by (simp add: div_mult2_eq [symmetric])
  also have "\<dots> = x" unfolding d unfolding n_def using assms(1) by (rule digits2(1))
  finally show "(x * 4096 + y * 64 + z) div 4096 = x" unfolding e .
qed

lemma digits4:
  fixes w x y z :: nat
  assumes "x < 64" and "y < 64" and "z < 64"
  shows "(w * 262144 + x * 4096 + y * 64 + z) div 262144 = w"
    and "(w * 262144 + x * 4096 + y * 64 + z) div 4096 mod 64 = x"
    and "(w * 262144 + x * 4096 + y * 64 + z) div 64 mod 64 = y"
    and "(w * 262144 + x * 4096 + y * 64 + z) mod 64 = z"
proof -
  define n where "n = w * 64 + x"
  have e: "w * 262144 + x * 4096 + y * 64 + z = n * 4096 + y * 64 + z" by (simp add: n_def)
  show "(w * 262144 + x * 4096 + y * 64 + z) div 64 mod 64 = y"
    unfolding e using assms(2,3) by (rule digits3(2))
  show "(w * 262144 + x * 4096 + y * 64 + z) mod 64 = z"
    unfolding e using assms(2,3) by (rule digits3(3))
  have d: "(n * 4096 + y * 64 + z) div 4096 = n" using assms(2,3) by (rule digits3(1))
  show "(w * 262144 + x * 4096 + y * 64 + z) div 4096 mod 64 = x"
    unfolding e d unfolding n_def using assms(1) by (rule digits2(2))
  have "(n * 4096 + y * 64 + z) div 262144 = (n * 4096 + y * 64 + z) div 4096 div 64"
    by (simp add: div_mult2_eq [symmetric])
  also have "\<dots> = w" unfolding d unfolding n_def using assms(1) by (rule digits2(1))
  finally show "(w * 262144 + x * 4096 + y * 64 + z) div 262144 = w" unfolding e .
qed

lemma two_bytes:
  fixes b c1 :: nat
  assumes "194 \<le> b" "b \<le> 223" "isCont c1"
  defines "v \<equiv> (b - 192) * 64 + (c1 - 128)"
  shows "128 \<le> v" "v < 2048" "192 + v div 64 = b" "128 + v mod 64 = c1"
proof -
  obtain x y where b: "b = 192 + x" and c1: "c1 = 128 + y"
    and x: "2 \<le> x" "x \<le> 31" and y: "y < 64"
    using assms(1,2,3) by (auto simp: isCont_def intro: that [of "b - 192" "c1 - 128"])
  have v: "v = x * 64 + y" by (simp add: v_def b c1)
  show "128 \<le> v" "v < 2048" using x y by (simp_all add: v)
  show "192 + v div 64 = b" unfolding v digits2(1) [OF y] by (simp add: b)
  show "128 + v mod 64 = c1" unfolding v digits2(2) [OF y] by (simp add: c1)
qed

lemma three_bytes:
  fixes b c1 c2 :: nat
  assumes "224 \<le> b" "b \<le> 239" "lower3 b \<le> c1" "c1 \<le> upper3 b" "isCont c2"
  defines "v \<equiv> (b - 224) * 4096 + (c1 - 128) * 64 + (c2 - 128)"
  shows "2048 \<le> v" "v < 65536" "\<not> (55296 \<le> v \<and> v \<le> 57343)"
    "224 + v div 4096 = b" "128 + v div 64 mod 64 = c1" "128 + v mod 64 = c2"
proof -
  obtain x y z where b: "b = 224 + x" and c1: "c1 = 128 + y" and c2: "c2 = 128 + z"
    and x: "x \<le> 15" and y: "y < 64" and z: "z < 64"
    and lo: "x = 0 \<longrightarrow> 32 \<le> y" and hi: "x = 13 \<longrightarrow> y \<le> 31"
    using assms(1-5)
    by (auto simp: isCont_def lower3_def upper3_def split: if_splits
          intro: that [of "b - 224" "c1 - 128" "c2 - 128"])
  have v: "v = x * 4096 + y * 64 + z" by (simp add: v_def b c1 c2)
  show "2048 \<le> v" using lo y z unfolding v by (cases "x = 0") simp_all
  show "v < 65536" using x y z unfolding v by simp
  have "x \<le> 12 \<or> x = 13 \<or> 14 \<le> x" by arith
  then show "\<not> (55296 \<le> v \<and> v \<le> 57343)"
    using hi y z unfolding v by (elim disjE) simp_all
  show "224 + v div 4096 = b" unfolding v digits3(1) [OF y z] by (simp add: b)
  show "128 + v div 64 mod 64 = c1" unfolding v digits3(2) [OF y z] by (simp add: c1)
  show "128 + v mod 64 = c2" unfolding v digits3(3) [OF y z] by (simp add: c2)
qed

lemma four_bytes:
  fixes b c1 c2 c3 :: nat
  assumes "240 \<le> b" "b \<le> 244" "lower4 b \<le> c1" "c1 \<le> upper4 b" "isCont c2" "isCont c3"
  defines "v \<equiv> (b - 240) * 262144 + (c1 - 128) * 4096 + (c2 - 128) * 64 + (c3 - 128)"
  shows "65536 \<le> v" "v \<le> 1114111"
    "240 + v div 262144 = b" "128 + v div 4096 mod 64 = c1"
    "128 + v div 64 mod 64 = c2" "128 + v mod 64 = c3"
proof -
  obtain w x y z where b: "b = 240 + w" and c1: "c1 = 128 + x" and c2: "c2 = 128 + y"
    and c3: "c3 = 128 + z"
    and w: "w \<le> 4" and x: "x < 64" and y: "y < 64" and z: "z < 64"
    and lo: "w = 0 \<longrightarrow> 16 \<le> x" and hi: "w = 4 \<longrightarrow> x \<le> 15"
    using assms(1-6)
    by (auto simp: isCont_def lower4_def upper4_def split: if_splits
          intro: that [of "b - 240" "c1 - 128" "c2 - 128" "c3 - 128"])
  have v: "v = w * 262144 + x * 4096 + y * 64 + z" by (simp add: v_def b c1 c2 c3)
  show "65536 \<le> v" using lo x y z unfolding v by (cases "w = 0") simp_all
  have "w \<le> 3 \<or> w = 4" using w by arith
  then show "v \<le> 1114111" using hi x y z unfolding v by (elim disjE) simp_all
  show "240 + v div 262144 = b" unfolding v digits4(1) [OF x y z] by (simp add: b)
  show "128 + v div 4096 mod 64 = c1" unfolding v digits4(2) [OF x y z] by (simp add: c1)
  show "128 + v div 64 mod 64 = c2" unfolding v digits4(3) [OF x y z] by (simp add: c2)
  show "128 + v mod 64 = c3" unfolding v digits4(4) [OF x y z] by (simp add: c3)
qed

lemma surrogates:
  fixes v :: nat
  assumes "65536 \<le> v" "v \<le> 1114111"
  defines "hi \<equiv> 55296 + (v - 65536) div 1024" and "lo \<equiv> 56320 + (v - 65536) mod 1024"
  shows "55296 \<le> hi" "hi \<le> 56319" "56320 \<le> lo" "lo \<le> 57343"
    "65536 + (hi - 55296) * 1024 + (lo - 56320) = v"
proof -
  have d: "(v - 65536) div 1024 < 1024" using assms(2) by simp
  have m: "(v - 65536) mod 1024 < 1024" by simp
  show "55296 \<le> hi" "hi \<le> 56319" using d by (simp_all add: hi_def)
  show "56320 \<le> lo" "lo \<le> 57343" using m by (simp_all add: lo_def)
  have "(v - 65536) div 1024 * 1024 + (v - 65536) mod 1024 = v - 65536" by simp
  then show "65536 + (hi - 55296) * 1024 + (lo - 56320) = v"
    using assms(1) by (simp add: hi_def lo_def)
qed

lemma step_roundtrip:
  assumes "wellFormed b bs = Some k"
  shows "snd (utf8Step b bs) = k
       \<and> utf8Encode (fst (utf8Step b bs) @ rest) = b # take k bs @ utf8Encode rest"
proof -
  consider (one) "b < 128"
    | (two) "194 \<le> b" "b \<le> 223"
    | (three) "224 \<le> b" "b \<le> 239"
    | (four) "240 \<le> b" "b \<le> 244"
    using assms by (auto simp: wellFormed_def split: if_splits)
  then show ?thesis
  proof cases
    case one
    with assms show ?thesis
      by (auto simp: wellFormed_def utf8Step_def encodeStep_def)
  next
    case two
    with assms obtain c1 r1 where bs: "bs = c1 # r1" and c: "isCont c1" and k: "k = 1"
      by (auto simp: wellFormed_def split: list.splits if_splits)
    define v where "v = (b - 192) * 64 + (c1 - 128)"
    note t = two_bytes [OF two c, folded v_def]
    from two have s: "utf8Step b (c1 # r1) = ([v], 1)"
      using t(2) c
      by (simp add: utf8Step_def decode2_def utf16EncodeCodePoint_def v_def [symmetric])
    have e: "encodeStep v rest = ([b, c1], 0)"
      using t by (simp add: encodeStep_def)
    show ?thesis
      by (simp add: s k bs e)
  next
    case three
    with assms obtain c1 c2 r2 where bs: "bs = c1 # c2 # r2"
      and c: "lower3 b \<le> c1" "c1 \<le> upper3 b" "isCont c2" and k: "k = 2"
      by (auto simp: wellFormed_def split: list.splits if_splits)
    define v where "v = (b - 224) * 4096 + (c1 - 128) * 64 + (c2 - 128)"
    note t = three_bytes [OF three c, folded v_def]
    from three have s: "utf8Step b (c1 # c2 # r2) = ([v], 2)"
      using t(2) c
      by (simp add: utf8Step_def decode3_def utf16EncodeCodePoint_def v_def [symmetric])
    have e: "encodeStep v rest = ([b, c1, c2], 0)"
      using t by (auto simp: encodeStep_def)
    show ?thesis
      by (simp add: s k bs e)
  next
    case four
    with assms obtain c1 c2 c3 r3 where bs: "bs = c1 # c2 # c3 # r3"
      and c: "lower4 b \<le> c1" "c1 \<le> upper4 b" "isCont c2" "isCont c3" and k: "k = 3"
      by (auto simp: wellFormed_def split: list.splits if_splits)
    define v where "v = (b - 240) * 262144 + (c1 - 128) * 4096 + (c2 - 128) * 64 + (c3 - 128)"
    note t = four_bytes [OF four c, folded v_def]
    note u = surrogates [OF t(1,2)]
    define hi where "hi = 55296 + (v - 65536) div 1024"
    define lo where "lo = 56320 + (v - 65536) mod 1024"
    note u' = u [folded hi_def lo_def]
    from four have s: "utf8Step b (c1 # c2 # c3 # r3) = ([hi, lo], 3)"
      using t(1) c
      by (simp add: utf8Step_def decode4_def utf16EncodeCodePoint_def v_def [symmetric]
            hi_def lo_def)
    have e: "encodeStep hi (lo # rest) = ([b, c1, c2, c3], 1)"
      using u' t by (simp add: encodeStep_def encodeSurrogates_def)
    show ?thesis
      by (simp add: s k bs e)
  qed
qed

text \<open>Well-formed bytes come back from decoding and encoding.\<close>

lemma utf8_roundtrip: "validUtf8 bs \<Longrightarrow> utf8Encode (utf8Decode bs) = bs"
proof (induction bs rule: validUtf8.induct)
  case 1
  then show ?case by simp
next
  case (2 b bs)
  from "2.prems" obtain k where k: "wellFormed b bs = Some k" and v: "validUtf8 (drop k bs)"
    by (cases "wellFormed b bs") auto
  note s = step_roundtrip [OF k, of "utf8Decode (drop k bs)"]
  have "utf8Encode (utf8Decode (b # bs)) = b # take k bs @ utf8Encode (utf8Decode (drop k bs))"
    using s by simp
  also have "\<dots> = b # take k bs @ drop k bs"
    using "2.IH" [OF k v] by simp
  finally show ?case by simp
qed

section \<open>The cache and the renderer\<close>

lemma sanitiseUrl_not_Nil: "sanitiseUrl p \<noteq> Some []"
  by (auto simp: sanitiseUrl_def Let_def split: option.splits)

lemma resolve_not_Nil: "resolve wd args \<noteq> []"
  by (auto simp: resolve_def Let_def dot_def split: prod.splits)

lemma routeToFile_not_Nil: "routeToFile e cleanPath \<noteq> Some []"
  by (auto simp: routeToFile_def Let_def resolve_not_Nil)

lemma posix_normalize_not_Nil: "posix_normalize p \<noteq> []"
  by (auto simp: posix_normalize_def Let_def dot_def)

lemma routeToFile_legacy_not_Nil: "routeToFile_legacy e cleanPath \<noteq> Some []"
  by (auto simp: routeToFile_legacy_def path_join_def Let_def posix_normalize_not_Nil dot_def)

lemma fst_buildNav: "fst (buildNav e st) = fst (buildNav e st2)"
  by (simp add: buildNav_def Let_def split: option.splits)

lemma pageCache_buildNav: "pageCache (snd (buildNav e st)) = pageCache st"
  by (simp add: buildNav_def Let_def emit_def split: option.splits)

lemma fst_renderTemplate: "fst (renderTemplate e title content st) = fst (renderTemplate e title content st2)"
  using fst_buildNav [of e "emit (RenderTemplate title content) st" "emit (RenderTemplate title content) st2"]
  by (simp add: renderTemplate_def Let_def case_prod_beta)

lemma pageCache_renderTemplate: "pageCache (snd (renderTemplate e title content st)) = pageCache st"
  using pageCache_buildNav [of e "emit (RenderTemplate title content) st"]
  by (simp add: renderTemplate_def Let_def emit_def case_prod_beta)

lemma buildPage_hit:
  assumes "readFileSync e filePath = Some md"
    and "cacheHit (pageCache st route) (hashContent e md) = Some cached"
  shows "buildPage e route filePath st = (Inr cached, emit (ReadFile filePath) st)"
  using assms by (simp add: buildPage_def Let_def emit_def)

lemma buildPage_miss:
  assumes "buildPage e route filePath st = (Inr pg, st')"
    and "readFileSync e filePath = Some md"
    and "cacheHit (pageCache st route) (hashContent e md) = None"
  shows "\<exists>rawHtml htmlBody.
           marked_parse e md = Some rawHtml
         \<and> sanitizeHtml e rawHtml (pageOptions e) = Some htmlBody
         \<and> pg = \<lparr>hash = hashContent e md,
                  html = fst (renderTemplate e (if route = [slash] then str ''index'' else slice1 route)
                                htmlBody st),
                  etag = quote @ hashContent e
                           (fst (renderTemplate e (if route = [slash] then str ''index'' else slice1 route)
                                   htmlBody st)) @ quote\<rparr>
         \<and> pageCache st' = (pageCache st)(route \<mapsto> pg)"
proof -
  from assms obtain rawHtml where raw: "marked_parse e md = Some rawHtml"
    by (cases "marked_parse e md") (auto simp: buildPage_def Let_def emit_def)
  from assms raw obtain htmlBody where bod: "sanitizeHtml e rawHtml (pageOptions e) = Some htmlBody"
    by (cases "sanitizeHtml e rawHtml (pageOptions e)") (auto simp: buildPage_def Let_def emit_def)
  let ?title = "if route = [slash] then str ''index'' else slice1 route"
  let ?st3 = "emit (SanitizeHtml rawHtml) (emit (MarkedParse md) (emit (ReadFile filePath) st))"
  obtain fullHtml st4 where rt: "renderTemplate e ?title htmlBody ?st3 = (fullHtml, st4)"
    by (cases "renderTemplate e ?title htmlBody ?st3") auto
  have f: "fullHtml = fst (renderTemplate e ?title htmlBody st)"
    using rt fst_renderTemplate [of e ?title htmlBody ?st3 st] by simp
  have c: "pageCache st4 = pageCache st"
    using rt pageCache_renderTemplate [of e ?title htmlBody ?st3] by (simp add: emit_def)
  from assms raw bod rt
  have "pg = \<lparr>hash = hashContent e md, html = fullHtml,
               etag = quote @ hashContent e fullHtml @ quote\<rparr>
        \<and> st' = st4\<lparr>pageCache := (pageCache st4)(route \<mapsto> pg)\<rparr>"
    by (auto simp: buildPage_def Let_def emit_def)
  with raw bod f c show ?thesis by auto
qed

lemma buildPage_ok_read:
  assumes "buildPage e route filePath st = (Inr pg, st')"
  shows "\<exists>md. readFileSync e filePath = Some md"
  using assms by (cases "readFileSync e filePath") (auto simp: buildPage_def Let_def)

lemma cacheHit_cases:
  "cacheHit c h = None \<or> (\<exists>p. cacheHit c h = Some p \<and> c = Some p \<and> hash p = h)"
  by (auto simp: cacheHit_def split: option.splits)

lemma buildPage_legacy_hit:
  assumes "readFileSync e filePath = Some md"
    and "cacheHit_legacy (pageCache_legacy st route) (hashContent e md) = Some cached"
  shows "buildPage_legacy e route filePath st
           = (Inr (html_legacy cached), emit_legacy (ReadFile filePath) st)"
  using assms by (simp add: buildPage_legacy_def Let_def emit_legacy_def)

lemma buildPage_legacy_miss:
  assumes "buildPage_legacy e route filePath st = (Inr fullHtml, st')"
    and "readFileSync e filePath = Some md"
    and "cacheHit_legacy (pageCache_legacy st route) (hashContent e md) = None"
  shows "\<exists>htmlBody.
           marked_parse e md = Some htmlBody
         \<and> fullHtml = renderTemplate_legacy e
                         (if route = [slash] then str ''index'' else slice1 route) htmlBody
         \<and> pageCache_legacy st' = (pageCache_legacy st)
              (route \<mapsto> \<lparr>hash_legacy = hashContent e md, html_legacy = fullHtml\<rparr>)"
  using assms
  by (cases "marked_parse e md") (auto simp: buildPage_legacy_def Let_def emit_legacy_def)

lemma buildPage_legacy_ok_read:
  assumes "buildPage_legacy e route filePath st = (Inr h, st')"
  shows "\<exists>md. readFileSync e filePath = Some md"
  using assms by (cases "readFileSync e filePath") (auto simp: buildPage_legacy_def Let_def)

lemma cacheHit_legacy_cases:
  "cacheHit_legacy c h = None
   \<or> (\<exists>p. cacheHit_legacy c h = Some p \<and> c = Some p \<and> hash_legacy p = h)"
  by (auto simp: cacheHit_legacy_def split: option.splits)

lemma cacheHit_Some: "hash c = h \<Longrightarrow> cacheHit (Some c) h = Some c"
  by (simp add: cacheHit_def)

lemma cacheHit_legacy_Some: "hash_legacy c = h \<Longrightarrow> cacheHit_legacy (Some c) h = Some c"
  by (simp add: cacheHit_legacy_def)

lemma buildPage_result_cached:
  assumes "buildPage e route filePath st = (Inr pg, st')"
    and "readFileSync e filePath = Some md"
  shows "pageCache st' route = Some pg \<and> hash pg = hashContent e md"
proof (cases "cacheHit (pageCache st route) (hashContent e md)")
  case None
  from buildPage_miss [OF assms None] show ?thesis by auto
next
  case (Some c)
  then have c: "pageCache st route = Some c" "hash c = hashContent e md"
    using cacheHit_cases [of "pageCache st route" "hashContent e md"] by auto
  from buildPage_hit [OF assms(2) Some] assms(1) have "pg = c" "st' = emit (ReadFile filePath) st"
    by auto
  with c show ?thesis by (simp add: emit_def)
qed

lemma buildNav_reads:
  "\<exists>new. calls (snd (buildNav e st)) = calls st @ new
         \<and> (\<forall>f. ReadFile f \<in> set new \<longrightarrow> f = navFile e)"
  by (auto simp: buildNav_def Let_def emit_def split: option.splits)

lemma renderTemplate_reads:
  "\<exists>new. calls (snd (renderTemplate e title content st)) = calls st @ new
         \<and> (\<forall>f. ReadFile f \<in> set new \<longrightarrow> f = navFile e)"
proof -
  obtain new where n: "calls (snd (buildNav e (emit (RenderTemplate title content) st)))
      = calls (emit (RenderTemplate title content) st) @ new"
    and r: "\<forall>f. ReadFile f \<in> set new \<longrightarrow> f = navFile e"
    using buildNav_reads by blast
  have "calls (snd (renderTemplate e title content st))
          = calls st @ (RenderTemplate title content # new)"
    using n by (simp add: renderTemplate_def Let_def emit_def case_prod_beta)
  moreover have "\<forall>f. ReadFile f \<in> set (RenderTemplate title content # new) \<longrightarrow> f = navFile e"
    using r by simp
  ultimately show ?thesis by blast
qed

lemma buildPage_reads:
  "\<exists>rest. calls (snd (buildPage e route filePath st)) = calls st @ ReadFile filePath # rest
          \<and> (\<forall>f. ReadFile f \<in> set rest \<longrightarrow> f = navFile e)"
proof (cases "readFileSync e filePath")
  case None
  then show ?thesis by (simp add: buildPage_def Let_def emit_def)
next
  case (Some md)
  show ?thesis
  proof (cases "cacheHit (pageCache st route) (hashContent e md)")
    case hit: (Some c)
    with Some show ?thesis by (simp add: buildPage_def Let_def emit_def)
  next
    case None
    show ?thesis
    proof (cases "marked_parse e md")
      case noparse: None
      with Some None show ?thesis by (simp add: buildPage_def Let_def emit_def)
    next
      case raw: (Some rawHtml)
      show ?thesis
      proof (cases "sanitizeHtml e rawHtml (pageOptions e)")
        case nosan: None
        with Some None raw show ?thesis by (simp add: buildPage_def Let_def emit_def)
      next
        case bod: (Some htmlBody)
        let ?st3 = "emit (SanitizeHtml rawHtml) (emit (MarkedParse md) (emit (ReadFile filePath) st))"
        let ?title = "if route = [slash] then str ''index'' else slice1 route"
        obtain new where n: "calls (snd (renderTemplate e ?title htmlBody ?st3))
            = calls ?st3 @ new"
          and r: "\<forall>f. ReadFile f \<in> set new \<longrightarrow> f = navFile e"
          using renderTemplate_reads by blast
        from Some None raw bod
        have "calls (snd (buildPage e route filePath st))
                = calls (snd (renderTemplate e ?title htmlBody ?st3))"
          by (simp add: buildPage_def Let_def emit_def case_prod_beta)
        with n have "calls (snd (buildPage e route filePath st))
                = calls st @ ReadFile filePath # (MarkedParse md # SanitizeHtml rawHtml # new)"
          by (simp add: emit_def)
        moreover have "\<forall>f. ReadFile f \<in> set (MarkedParse md # SanitizeHtml rawHtml # new)
                         \<longrightarrow> f = navFile e"
          using r by simp
        ultimately show ?thesis by blast
      qed
    qed
  qed
qed

lemma buildPage_entry:
  assumes "buildPage e route filePath st = (Inr pg, st')"
  shows "\<exists>md. readFileSync e filePath = Some md
         \<and> pageCache st' route = Some pg
         \<and> hash pg = hashContent e md
         \<and> (pageCache st route = Some pg \<and> pageCache st' = pageCache st
            \<or> cacheHit (pageCache st route) (hashContent e md) = None
              \<and> pageCache st' = (pageCache st)(route \<mapsto> pg)
              \<and> (\<exists>rawHtml htmlBody.
                    marked_parse e md = Some rawHtml
                  \<and> sanitizeHtml e rawHtml (pageOptions e) = Some htmlBody
                  \<and> html pg = fst (renderTemplate e
                                     (if route = [slash] then str ''index'' else slice1 route)
                                     htmlBody st)
                  \<and> etag pg = quote @ hashContent e (html pg) @ quote))"
proof -
  note b = assms
  obtain md where md: "readFileSync e filePath = Some md"
    using buildPage_ok_read [OF b] by blast
  show ?thesis
  proof (cases "cacheHit (pageCache st route) (hashContent e md)")
    case None
    from buildPage_miss [OF b md None] md None show ?thesis
      by (intro exI [of _ md]) auto
  next
    case (Some c)
    then have c: "pageCache st route = Some c" "hash c = hashContent e md"
      using cacheHit_cases [of "pageCache st route" "hashContent e md"] by auto
    from buildPage_hit [OF md Some] b have "pg = c" "st' = emit (ReadFile filePath) st"
      by auto
    with c md show ?thesis
      by (intro exI [of _ md]) (simp add: emit_def)
  qed
qed

lemma buildPage_legacy_entry:
  assumes "buildPage_legacy e route filePath sl = (Inr fullHtml, sl')"
  shows "\<exists>md. readFileSync e filePath = Some md
           \<and> pageCache_legacy sl' route
               = Some \<lparr>hash_legacy = hashContent e md, html_legacy = fullHtml\<rparr>
           \<and> (pageCache_legacy sl' = pageCache_legacy sl
              \<or> cacheHit_legacy (pageCache_legacy sl route) (hashContent e md) = None
                \<and> pageCache_legacy sl' = (pageCache_legacy sl)
                     (route \<mapsto> \<lparr>hash_legacy = hashContent e md, html_legacy = fullHtml\<rparr>)
                \<and> (\<exists>htmlBody.
                      marked_parse e md = Some htmlBody
                    \<and> fullHtml = renderTemplate_legacy e
                        (if route = [slash] then str ''index'' else slice1 route) htmlBody))"
proof -
  note b = assms
  obtain md where md: "readFileSync e filePath = Some md"
    using buildPage_legacy_ok_read [OF b] by blast
  show ?thesis
  proof (cases "cacheHit_legacy (pageCache_legacy sl route) (hashContent e md)")
    case None
    from buildPage_legacy_miss [OF b md None] md None show ?thesis
      by (intro exI [of _ md]) auto
  next
    case (Some c)
    then have c: "pageCache_legacy sl route = Some c" "hash_legacy c = hashContent e md"
      using cacheHit_legacy_cases [of "pageCache_legacy sl route" "hashContent e md"] by auto
    from buildPage_legacy_hit [OF md Some] b
    have "fullHtml = html_legacy c" "sl' = emit_legacy (ReadFile filePath) sl"
      by auto
    with c md show ?thesis
      by (intro exI [of _ md]) (simp add: emit_legacy_def)
  qed
qed

section \<open>The outcomes of the request handler\<close>

lemma handler_405:
  assumes "http_method req \<noteq> str ''GET''"
  shows "handler e req st =
           (\<lparr>status = 405,
             headers = [(str ''Content-Type'', str ''text/plain; charset=utf-8'')],
             body = str ''Method Not Allowed''\<rparr>, st)"
  using assms by (simp add: handler_def)

lemma handler_400:
  assumes "http_method req = str ''GET''" and "sanitiseUrl (url req) = None"
  shows "handler e req st = (\<lparr>status = 400, headers = [], body = str ''Bad Request''\<rparr>, st)"
  using assms by (simp add: handler_def)

lemma handler_403:
  assumes "http_method req = str ''GET''" and "sanitiseUrl (url req) = Some cleanPath"
    and "routeToFile e cleanPath = None"
  shows "handler e req st = (\<lparr>status = 403, headers = [], body = str ''Forbidden''\<rparr>, st)"
proof -
  have "cleanPath \<noteq> []" using assms(2) sanitiseUrl_not_Nil [of "url req"] by auto
  then show ?thesis using assms by (simp add: handler_def)
qed

lemma handler_404:
  assumes "http_method req = str ''GET''" and "sanitiseUrl (url req) = Some cleanPath"
    and "routeToFile e cleanPath = Some filePath" and "\<not> existsSync e filePath"
  shows "handler e req st = (\<lparr>status = 404, headers = [], body = str ''Not Found''\<rparr>, st)"
proof -
  have "cleanPath \<noteq> []" using assms(2) sanitiseUrl_not_Nil [of "url req"] by auto
  moreover have "filePath \<noteq> []" using assms(3) routeToFile_not_Nil [of e cleanPath] by auto
  ultimately show ?thesis using assms by (simp add: handler_def)
qed

lemma handler_500:
  assumes "http_method req = str ''GET''" and "sanitiseUrl (url req) = Some cleanPath"
    and "routeToFile e cleanPath = Some filePath" and "existsSync e filePath"
    and "buildPage e cleanPath filePath st = (Inl err, st')"
  shows "handler e req st =
           (\<lparr>status = 500, headers = [], body = str ''Internal Server Error''\<rparr>, st')"
proof -
  have "cleanPath \<noteq> []" using assms(2) sanitiseUrl_not_Nil [of "url req"] by auto
  moreover have "filePath \<noteq> []" using assms(3) routeToFile_not_Nil [of e cleanPath] by auto
  ultimately show ?thesis using assms by (simp add: handler_def)
qed

lemma handler_page:
  assumes "http_method req = str ''GET''" and "sanitiseUrl (url req) = Some cleanPath"
    and "routeToFile e cleanPath = Some filePath" and "existsSync e filePath"
    and "buildPage e cleanPath filePath st = (Inr pg, st')"
  shows "handler e req st =
           (if if_none_match req = Some (etag pg)
            then \<lparr>status = 304, headers = [], body = []\<rparr>
            else \<lparr>status = 200, headers = okHeaders (etag pg), body = html pg\<rparr>, st')"
proof -
  have "cleanPath \<noteq> []" using assms(2) sanitiseUrl_not_Nil [of "url req"] by auto
  moreover have "filePath \<noteq> []" using assms(3) routeToFile_not_Nil [of e cleanPath] by auto
  ultimately show ?thesis using assms by (simp add: handler_def)
qed

lemma handler_legacy_405:
  assumes "http_method req \<noteq> str ''GET''" and "http_method req \<noteq> str ''POST''"
  shows "handler_legacy e req st =
           (\<lparr>status = 405, headers = [], body = str ''Method Not Allowed''\<rparr>, st)"
  using assms by (simp add: handler_legacy_def)

lemma handler_legacy_400:
  assumes "http_method req = str ''GET'' \<or> http_method req = str ''POST''"
    and "sanitiseUrl (url req) = None"
  shows "handler_legacy e req st
           = (\<lparr>status = 400, headers = [], body = str ''Bad Request''\<rparr>, st)"
  using assms by (auto simp: handler_legacy_def)

lemma handler_legacy_403:
  assumes "http_method req = str ''GET'' \<or> http_method req = str ''POST''"
    and "sanitiseUrl (url req) = Some cleanPath"
    and "routeToFile_legacy e cleanPath = None"
  shows "handler_legacy e req st
           = (\<lparr>status = 403, headers = [], body = str ''Forbidden''\<rparr>, st)"
proof -
  have "cleanPath \<noteq> []" using assms(2) sanitiseUrl_not_Nil [of "url req"] by auto
  then show ?thesis using assms by (auto simp: handler_legacy_def)
qed

lemma handler_legacy_404:
  assumes "http_method req = str ''GET'' \<or> http_method req = str ''POST''"
    and "sanitiseUrl (url req) = Some cleanPath"
    and "routeToFile_legacy e cleanPath = Some filePath" and "\<not> existsSync e filePath"
  shows "handler_legacy e req st
           = (\<lparr>status = 404, headers = [], body = str ''Not Found''\<rparr>, st)"
proof -
  have "cleanPath \<noteq> []" using assms(2) sanitiseUrl_not_Nil [of "url req"] by auto
  moreover have "filePath \<noteq> []"
    using assms(3) routeToFile_legacy_not_Nil [of e cleanPath] by auto
  ultimately show ?thesis using assms by (auto simp: handler_legacy_def)
qed

lemma handler_legacy_500:
  assumes "http_method req = str ''GET'' \<or> http_method req = str ''POST''"
    and "sanitiseUrl (url req) = Some cleanPath"
    and "routeToFile_legacy e cleanPath = Some filePath" and "existsSync e filePath"
    and "buildPage_legacy e cleanPath filePath st = (Inl err, st')"
  shows "handler_legacy e req st =
           (\<lparr>status = 500, headers = [], body = str ''Internal Server Error''\<rparr>, st')"
proof -
  have "cleanPath \<noteq> []" using assms(2) sanitiseUrl_not_Nil [of "url req"] by auto
  moreover have "filePath \<noteq> []"
    using assms(3) routeToFile_legacy_not_Nil [of e cleanPath] by auto
  ultimately show ?thesis using assms by (auto simp: handler_legacy_def)
qed

lemma handler_legacy_page:
  assumes "http_method req = str ''GET'' \<or> http_method req = str ''POST''"
    and "sanitiseUrl (url req) = Some cleanPath"
    and "routeToFile_legacy e cleanPath = Some filePath" and "existsSync e filePath"
    and "buildPage_legacy e cleanPath filePath st = (Inr fullHtml, st')"
  shows "handler_legacy e req st =
           (\<lparr>status = 200, headers = okHeaders_legacy, body = fullHtml\<rparr>, st')"
proof -
  have "cleanPath \<noteq> []" using assms(2) sanitiseUrl_not_Nil [of "url req"] by auto
  moreover have "filePath \<noteq> []"
    using assms(3) routeToFile_legacy_not_Nil [of e cleanPath] by auto
  ultimately show ?thesis using assms by (auto simp: handler_legacy_def)
qed

lemma handler_result:
  "(\<exists>r. handler e req st = (r, st) \<and> status r \<in> {400, 403, 404, 405})
   \<or> (\<exists>cleanPath filePath.
         http_method req = str ''GET''
       \<and> sanitiseUrl (url req) = Some cleanPath
       \<and> routeToFile e cleanPath = Some filePath
       \<and> existsSync e filePath
       \<and> ((\<exists>err st'. buildPage e cleanPath filePath st = (Inl err, st')
              \<and> handler e req st =
                  (\<lparr>status = 500, headers = [], body = str ''Internal Server Error''\<rparr>, st'))
          \<or> (\<exists>pg st'. buildPage e cleanPath filePath st = (Inr pg, st')
              \<and> handler e req st =
                  (if if_none_match req = Some (etag pg)
                   then \<lparr>status = 304, headers = [], body = []\<rparr>
                   else \<lparr>status = 200, headers = okHeaders (etag pg), body = html pg\<rparr>,
                   st'))))"
proof (cases "http_method req = str ''GET''")
  case False
  then show ?thesis by (simp add: handler_405)
next
  case get: True
  show ?thesis
  proof (cases "sanitiseUrl (url req)")
    case None
    with get show ?thesis by (simp add: handler_400)
  next
    case (Some cleanPath)
    show ?thesis
    proof (cases "routeToFile e cleanPath")
      case None
      show ?thesis by (rule disjI1) (simp add: handler_403 [OF get Some None])
    next
      case f: (Some filePath)
      show ?thesis
      proof (cases "existsSync e filePath")
        case False
        show ?thesis by (rule disjI1) (simp add: handler_404 [OF get Some f False])
      next
        case True
        obtain r s where b: "buildPage e cleanPath filePath st = (r, s)"
          by (cases "buildPage e cleanPath filePath st") auto
        show ?thesis
        proof (cases r)
          case (Inl err)
          from handler_500 [OF get Some f True b [unfolded Inl]] b Inl get Some f True
          show ?thesis by blast
        next
          case (Inr pg)
          from handler_page [OF get Some f True b [unfolded Inr]] b Inr get Some f True
          show ?thesis by blast
        qed
      qed
    qed
  qed
qed

lemma handler_status:
  "status (fst (handler e req st)) =
     (if http_method req \<noteq> str ''GET'' then 405
      else (case sanitiseUrl (url req) of
        None \<Rightarrow> 400
      | Some cleanPath \<Rightarrow>
          (case routeToFile e cleanPath of
            None \<Rightarrow> 403
          | Some filePath \<Rightarrow>
              if \<not> existsSync e filePath then 404
              else (case fst (buildPage e cleanPath filePath st) of
                Inl err \<Rightarrow> 500
              | Inr pg \<Rightarrow> if if_none_match req = Some (etag pg) then 304 else 200))))
   \<and> (status (fst (handler e req st)) \<in> {400, 403, 404, 405}
        \<longrightarrow> snd (handler e req st) = st)"
proof (cases "http_method req = str ''GET''")
  case False
  then show ?thesis by (simp add: handler_405)
next
  case get: True
  show ?thesis
  proof (cases "sanitiseUrl (url req)")
    case None
    with get show ?thesis by (simp add: handler_400)
  next
    case (Some cleanPath)
    show ?thesis
    proof (cases "routeToFile e cleanPath")
      case None
      with get Some show ?thesis by (simp add: handler_403 [OF get Some None])
    next
      case f: (Some filePath)
      show ?thesis
      proof (cases "existsSync e filePath")
        case False
        with get Some f show ?thesis by (simp add: handler_404 [OF get Some f False])
      next
        case True
        obtain r s where b: "buildPage e cleanPath filePath st = (r, s)"
          by (cases "buildPage e cleanPath filePath st") auto
        show ?thesis
        proof (cases r)
          case (Inl err)
          with get Some f True b show ?thesis
            by (simp add: handler_500 [OF get Some f True b [unfolded Inl]])
        next
          case (Inr pg)
          with get Some f True b show ?thesis
            by (simp add: handler_page [OF get Some f True b [unfolded Inr]])
        qed
      qed
    qed
  qed
qed

lemma handler_legacy_status:
  "status (fst (handler_legacy e req sl)) =
     (if http_method req \<noteq> str ''GET'' \<and> http_method req \<noteq> str ''POST'' then 405
      else (case sanitiseUrl (url req) of
        None \<Rightarrow> 400
      | Some cleanPath \<Rightarrow>
          (case routeToFile_legacy e cleanPath of
            None \<Rightarrow> 403
          | Some filePath \<Rightarrow>
              if \<not> existsSync e filePath then 404
              else (case fst (buildPage_legacy e cleanPath filePath sl) of
                Inl err \<Rightarrow> 500
              | Inr fullHtml \<Rightarrow> 200))))
   \<and> (status (fst (handler_legacy e req sl)) \<in> {400, 403, 404, 405}
        \<longrightarrow> snd (handler_legacy e req sl) = sl)"
proof (cases "http_method req = str ''GET'' \<or> http_method req = str ''POST''")
  case False
  then show ?thesis by (simp add: handler_legacy_405)
next
  case get: True
  then have m: "\<not> (http_method req \<noteq> str ''GET'' \<and> http_method req \<noteq> str ''POST'')"
    by simp
  show ?thesis
  proof (cases "sanitiseUrl (url req)")
    case None
    show ?thesis using m by (simp add: handler_legacy_400 [OF get None] None)
  next
    case (Some cleanPath)
    show ?thesis
    proof (cases "routeToFile_legacy e cleanPath")
      case None
      show ?thesis using m by (simp add: handler_legacy_403 [OF get Some None] Some None)
    next
      case f: (Some filePath)
      show ?thesis
      proof (cases "existsSync e filePath")
        case False
        show ?thesis
          using m by (simp add: handler_legacy_404 [OF get Some f False] Some f False)
      next
        case True
        obtain r s where b: "buildPage_legacy e cleanPath filePath sl = (r, s)"
          by (cases "buildPage_legacy e cleanPath filePath sl") auto
        show ?thesis
        proof (cases r)
          case (Inl err)
          show ?thesis
            using m
            by (simp add: handler_legacy_500 [OF get Some f True b [unfolded Inl]] Some f
                  True b Inl)
        next
          case (Inr fullHtml)
          show ?thesis
            using m
            by (simp add: handler_legacy_page [OF get Some f True b [unfolded Inr]] Some f
                  True b Inr)
        qed
      qed
    qed
  qed
qed

lemma routeToFile_same_dirs:
  "dirname e2 = dirname e1 \<Longrightarrow> cwd e2 = cwd e1 \<Longrightarrow> routeToFile e2 c = routeToFile e1 c"
  by (simp add: routeToFile_def pagesDir_def)

section \<open>The worked example, evaluated\<close>

lemma replaceAllFrom_Nil: "replaceAllFrom s searchValue replaceValue position [] = []"
  by (subst replaceAllFrom.simps) simp

lemma replaceAllFrom_Cons:
  "replaceAllFrom s searchValue replaceValue position (c # r) =
     (if searchValue \<noteq> [] \<and> prefix searchValue (c # r) then
        getSubstitution searchValue s position replaceValue
          @ replaceAllFrom s searchValue replaceValue (position + length searchValue)
              (drop (length searchValue) (c # r))
      else c # replaceAllFrom s searchValue replaceValue (position + 1) r)"
  by (subst replaceAllFrom.simps) simp

lemmas path_ev = str_def dot_def dotdot_def slash_def startsWith_def Let_def
  isAbsolute_def normalizeString_def posix_normalize_def path_join_def

lemma ex_dirs:
  "dirname example_env = str ''/app''" "cwd example_env = str ''/app''"
  by (simp_all add: example_env_def)

lemma ex_pagesDir: "pagesDir example_env = str ''/app/pages''"
  by (simp add: pagesDir_def ex_dirs) (simp add: path_ev)

lemma ex_navFile: "navFile example_env = str ''/app/nav.md''"
  by (simp add: navFile_def ex_dirs) (simp add: path_ev)

lemma ex_resolve:
  "resolve (str ''/app'') [str ''/app/pages'', str ''index.md''] = str ''/app/pages/index.md''"
  "resolve (str ''/app'') [str ''/app/pages'', str ''etc/passwd.md'']
     = str ''/app/pages/etc/passwd.md''"
  "resolve (str ''/app'') [str ''/app/pages''] = str ''/app/pages''"
  "resolve (str ''/app'') [str ''/app/pages/index.md''] = str ''/app/pages/index.md''"
  "resolve (str ''/app'') [str ''/app/pages/etc/passwd.md''] = str ''/app/pages/etc/passwd.md''"
  by (simp_all add: resolve_def path_ev)

lemma ex_relative:
  "relative (str ''/app'') (str ''/app/pages'') (str ''/app/pages/index.md'') = str ''index.md''"
  "relative (str ''/app'') (str ''/app/pages'') (str ''/app/pages/etc/passwd.md'')
     = str ''etc/passwd.md''"
  by (simp_all add: relative_def ex_resolve) (simp_all add: segments_def str_def slash_def)

lemma ex_route:
  "routeToFile example_env (str ''/'') = Some (str ''/app/pages/index.md'')"
  "routeToFile example_env (str ''/index'') = Some (str ''/app/pages/index.md'')"
  "routeToFile example_env (str ''/etc/passwd'') = Some (str ''/app/pages/etc/passwd.md'')"
proof -
  have n: "str ''index'' @ str ''.md'' = str ''index.md''"
    "slice1 (str ''/index'') @ str ''.md'' = str ''index.md''"
    "slice1 (str ''/etc/passwd'') @ str ''.md'' = str ''etc/passwd.md''"
    "str ''/index'' \<noteq> [slash]" "str ''/etc/passwd'' \<noteq> [slash]" "str ''/'' = [slash]"
    by (simp_all add: str_def slice1_def slash_def)
  have r: "\<not> startsWith (str ''index.md'') dotdot" "\<not> isAbsolute (str ''index.md'')"
    "\<not> startsWith (str ''etc/passwd.md'') dotdot" "\<not> isAbsolute (str ''etc/passwd.md'')"
    by (simp_all add: path_ev)
  show "routeToFile example_env (str ''/'') = Some (str ''/app/pages/index.md'')"
    by (simp add: routeToFile_def ex_pagesDir ex_dirs n ex_resolve ex_relative r)
  show "routeToFile example_env (str ''/index'') = Some (str ''/app/pages/index.md'')"
    by (simp add: routeToFile_def ex_pagesDir ex_dirs n ex_resolve ex_relative r)
  show "routeToFile example_env (str ''/etc/passwd'') = Some (str ''/app/pages/etc/passwd.md'')"
    by (simp add: routeToFile_def ex_pagesDir ex_dirs n ex_resolve ex_relative r)
qed

lemma ex_sanitise:
  "sanitiseUrl (url index_request) = Some (str ''/'')"
  "sanitiseUrl (url dotdot_request) = Some (str ''/index'')"
  "sanitiseUrl (url traversal_request) = Some (str ''/etc/passwd'')"
  by (simp_all add: ev index_request_def dotdot_request_def traversal_request_def)

lemma ex_buildNav: "buildNav example_env st = ([], st)"
  by (simp add: buildNav_def ex_navFile) (simp add: example_env_def str_def)

lemma ex_template:
  "replaceAll
     (replaceAll
       (replaceAll
         (replaceAll
           (replaceAll
             (replaceAll (str ''<title>{{title}}</title>{{content}}'') (str ''{{site}}'') SITE_NAME)
             (str ''{{author}}'') AUTHOR)
           (str ''{{copydate}}'') (str ''2026''))
         (str ''{{title}}'') (str ''index''))
       (str ''{{nav}}'') [])
     (str ''{{content}}'') (str ''<p># Hi</p>'')
   = str ''<title>index</title><p># Hi</p>''"
  by (simp add: replaceAll_def replaceAllFrom_Nil replaceAllFrom_Cons str_def
        SITE_NAME_def AUTHOR_def)

lemma ex_renderTemplate:
  "renderTemplate example_env (str ''index'') (str ''<p># Hi</p>'') st
     = (str ''<title>index</title><p># Hi</p>'',
        emit (RenderTemplate (str ''index'') (str ''<p># Hi</p>'')) st)"
proof -
  have t: "template example_env = str ''<title>{{title}}</title>{{content}}''"
    "COPYDATE example_env = str ''2026''"
    by (simp_all add: example_env_def)
  show ?thesis
    by (simp add: renderTemplate_def Let_def ex_buildNav t ex_template)
qed

lemma ex_env_calls:
  "readFileSync example_env (str ''/app/pages/index.md'') = Some (str ''# Hi'')"
  "existsSync example_env (str ''/app/pages/index.md'')"
  "\<not> existsSync example_env (str ''/app/pages/etc/passwd.md'')"
  "hashContent example_env content = content"
  "marked_parse example_env (str ''# Hi'') = Some (str ''<p># Hi</p>'')"
  "sanitizeHtml example_env rawHtml options = Some rawHtml"
  by (simp_all add: example_env_def hashContent_def str_def)

lemma ex_title:
  "route = str ''/'' \<or> route = str ''/index''
   \<Longrightarrow> (if route = [slash] then str ''index'' else slice1 route) = str ''index''"
  by (auto simp: str_def slash_def slice1_def)

lemma ex_buildPage:
  assumes "route = str ''/'' \<or> route = str ''/index''"
  shows "buildPage example_env route (str ''/app/pages/index.md'') empty_state
           = (Inr example_page, rendered_state route)"
  by (simp add: buildPage_def Let_def ex_env_calls ex_title [OF assms] ex_renderTemplate
        cacheHit_def empty_state_def emit_def example_page_def rendered_state_def
        example_calls_def)

lemma ex_route_legacy:
  "routeToFile_legacy example_env (str ''/'') = Some (str ''/app/pages/index.md'')"
  "routeToFile_legacy example_env (str ''/etc/passwd'') = Some (str ''/app/pages/etc/passwd.md'')"
proof -
  have n: "str ''index'' @ str ''.md'' = str ''index.md''"
    "slice1 (str ''/etc/passwd'') @ str ''.md'' = str ''etc/passwd.md''"
    "str ''/etc/passwd'' \<noteq> [slash]" "str ''/'' = [slash]"
    by (simp_all add: str_def slice1_def slash_def)
  have j: "path_join [str ''/app/pages'', str ''index.md''] = str ''/app/pages/index.md''"
    "path_join [str ''/app/pages'', str ''etc/passwd.md''] = str ''/app/pages/etc/passwd.md''"
    by (simp_all add: path_ev)
  have s: "startsWith (str ''/app/pages/index.md'') (str ''/app/pages'')"
    "startsWith (str ''/app/pages/etc/passwd.md'') (str ''/app/pages'')"
    by (simp_all add: startsWith_def str_def)
  show "routeToFile_legacy example_env (str ''/'') = Some (str ''/app/pages/index.md'')"
    by (simp add: routeToFile_legacy_def ex_pagesDir n j s)
  show "routeToFile_legacy example_env (str ''/etc/passwd'')
          = Some (str ''/app/pages/etc/passwd.md'')"
    by (simp add: routeToFile_legacy_def ex_pagesDir n j s)
qed

lemma ex_template_legacy:
  "replace
     (replace
       (replace
         (replace
           (replace (str ''<title>{{title}}</title>{{content}}'') (str ''{{site}}'') SITE_NAME)
           (str ''{{author}}'') AUTHOR)
         (str ''{{copydate}}'') (str ''2026''))
       (str ''{{title}}'') (str ''index''))
     (str ''{{content}}'') (str ''<p># Hi</p>'')
   = str ''<title>index</title><p># Hi</p>''"
  by (simp add: replace_def str_def SITE_NAME_def AUTHOR_def)

lemma ex_renderTemplate_legacy:
  "renderTemplate_legacy example_env (str ''index'') (str ''<p># Hi</p>'')
     = str ''<title>index</title><p># Hi</p>''"
proof -
  have t: "template example_env = str ''<title>{{title}}</title>{{content}}''"
    "COPYDATE example_env = str ''2026''"
    by (simp_all add: example_env_def)
  show ?thesis
    by (simp add: renderTemplate_legacy_def Let_def t ex_template_legacy)
qed

lemma ex_buildPage_legacy:
  "buildPage_legacy example_env (str ''/'') (str ''/app/pages/index.md'') empty_state_legacy
     = (Inr (str ''<title>index</title><p># Hi</p>''), rendered_state_legacy (str ''/''))"
  by (simp add: buildPage_legacy_def Let_def ex_env_calls ex_title ex_renderTemplate_legacy
        cacheHit_legacy_def empty_state_legacy_def emit_legacy_def rendered_state_legacy_def
        example_cached_legacy_def)

lemma ex_handler:
  "handler example_env index_request empty_state
     = (\<lparr>status = 200, headers = okHeaders (etag example_page), body = html example_page\<rparr>,
        rendered_state (str ''/''))"
  "handler example_env dotdot_request empty_state
     = (\<lparr>status = 200, headers = okHeaders (etag example_page), body = html example_page\<rparr>,
        rendered_state (str ''/index''))"
proof -
  have m: "http_method index_request = str ''GET''" "http_method dotdot_request = str ''GET''"
    "if_none_match index_request = None" "if_none_match dotdot_request = None"
    by (simp_all add: index_request_def dotdot_request_def)
  show "handler example_env index_request empty_state
     = (\<lparr>status = 200, headers = okHeaders (etag example_page), body = html example_page\<rparr>,
        rendered_state (str ''/''))"
    using handler_page [OF m(1) ex_sanitise(1) ex_route(1) ex_env_calls(2) ex_buildPage]
    by (simp add: m)
  show "handler example_env dotdot_request empty_state
     = (\<lparr>status = 200, headers = okHeaders (etag example_page), body = html example_page\<rparr>,
        rendered_state (str ''/index''))"
    using handler_page [OF m(2) ex_sanitise(2) ex_route(2) ex_env_calls(2) ex_buildPage]
    by (simp add: m)
qed

lemma ex_absolute: "isAbsolute (dirname example_env)"
  by (simp add: ex_dirs isAbsolute_def str_def slash_def)

lemma twice_buildNav: "buildNav twice_env st = ([], st)"
proof -
  have "navFile twice_env = navFile example_env"
    by (simp add: navFile_def twice_env_def)
  then show ?thesis
    by (simp add: buildNav_def ex_navFile) (simp add: twice_env_def example_env_def str_def)
qed

lemmas replace_ev = replaceAll_def replaceAllFrom_Nil replaceAllFrom_Cons replace_def str_def
  SITE_NAME_def AUTHOR_def

lemma sibling_facts:
  "dirname sibling_env = str ''/app''" "cwd sibling_env = str ''/app''"
  "pagesDir sibling_env = str ''/app/pages''"
  "existsSync sibling_env (str ''/app/pages-evil/x.md'')"
  "readFileSync sibling_env (str ''/app/pages-evil/x.md'') = Some (str ''secret'')"
  "marked_parse sibling_env (str ''secret'') = Some (str ''<p>secret</p>'')"
proof -
  have "pagesDir sibling_env = pagesDir example_env"
    by (simp add: pagesDir_def sibling_env_def)
  then show "pagesDir sibling_env = str ''/app/pages''" by (simp add: ex_pagesDir)
qed (simp_all add: sibling_env_def example_env_def str_def)

lemma sibling_sanitise: "sanitiseUrl (url sibling_request) = Some (str ''/../pages-evil/x'')"
  by (simp add: ev sibling_request_def)

lemma sibling_route_legacy:
  "routeToFile_legacy sibling_env (str ''/../pages-evil/x'') = Some (str ''/app/pages-evil/x.md'')"
proof -
  have n: "slice1 (str ''/../pages-evil/x'') @ str ''.md'' = str ''../pages-evil/x.md''"
    "str ''/../pages-evil/x'' \<noteq> [slash]"
    by (simp_all add: str_def slice1_def slash_def)
  have j: "path_join [str ''/app/pages'', str ''../pages-evil/x.md'']
             = str ''/app/pages-evil/x.md''"
    by (simp add: path_ev)
  have s: "startsWith (str ''/app/pages-evil/x.md'') (str ''/app/pages'')"
    by (simp add: startsWith_def str_def)
  show ?thesis
    by (simp add: routeToFile_legacy_def sibling_facts n j s)
qed

lemma sibling_route: "routeToFile sibling_env (str ''/../pages-evil/x'') = None"
proof -
  have n: "slice1 (str ''/../pages-evil/x'') @ str ''.md'' = str ''../pages-evil/x.md''"
    "str ''/../pages-evil/x'' \<noteq> [slash]"
    by (simp_all add: str_def slice1_def slash_def)
  have r: "resolve (str ''/app'') [str ''/app/pages'', str ''../pages-evil/x.md'']
             = str ''/app/pages-evil/x.md''"
    "resolve (str ''/app'') [str ''/app/pages-evil/x.md''] = str ''/app/pages-evil/x.md''"
    by (simp_all add: resolve_def path_ev)
  have rel: "relative (str ''/app'') (str ''/app/pages'') (str ''/app/pages-evil/x.md'')
               = str ''../pages-evil/x.md''"
    by (simp add: relative_def r ex_resolve) (simp add: segments_def str_def slash_def dotdot_def)
  have s: "startsWith (str ''../pages-evil/x.md'') dotdot"
    by (simp add: startsWith_def str_def dotdot_def)
  show ?thesis
    by (simp add: routeToFile_def sibling_facts n r rel s)
qed

lemma utf8Encode_ascii: "\<forall>c\<in>set s. c < 128 \<Longrightarrow> utf8Encode s = s"
  by (induction s) (auto simp: encodeStep_def)

lemma byte_env_fields:
  "readFileSync (byte_env files) p = map_option utf8Decode (files p)"
  "existsSync (byte_env files) p = (files p \<noteq> None)"
  "sha256hex (byte_env files) content = bytes_digest (utf8Encode content)"
  "hashContent (byte_env files) content = utf8Encode content"
  "marked_parse (byte_env files) md = Some (str ''<p>'' @ md @ str ''</p>'')"
  "sanitizeHtml (byte_env files) rawHtml options = Some rawHtml"
  "template (byte_env files) = str ''<title>{{title}}</title>{{content}}''"
  "COPYDATE (byte_env files) = str ''2026''"
  "navFile (byte_env files) = str ''/app/nav.md''"
proof -
  have "navFile (byte_env files) = navFile example_env"
    by (simp add: navFile_def byte_env_def)
  then show "navFile (byte_env files) = str ''/app/nav.md''" by (simp add: ex_navFile)
qed (simp_all add: byte_env_def example_env_def hashContent_def bytes_digest_def)

lemmas utf8_ev = utf8Step_def decode2_def decode3_def decode4_def isCont_def lower3_def
  upper3_def lower4_def upper4_def replacementChar_def utf16EncodeCodePoint_def
  encodeStep_def encodeSurrogates_def wellFormed_def

lemma files_nav:
  "text_files (str ''/app/nav.md'') = None" "binary_files (str ''/app/nav.md'') = None"
  by (simp_all add: text_files_def binary_files_def str_def)

lemma byte_buildNav:
  "buildNav (byte_env text_files) st = ([], st)" "buildNav (byte_env binary_files) st = ([], st)"
  by (simp_all add: buildNav_def byte_env_fields files_nav)

lemma text_read:
  "readFileSync (byte_env text_files) (str ''/app/pages/index.md'') = Some (str ''# Hi'')"
  by (simp add: byte_env_fields text_files_def) (simp add: utf8_ev str_def)

lemma text_renderTemplate:
  "renderTemplate (byte_env text_files) (str ''index'') (str ''<p># Hi</p>'') st
     = (str ''<title>index</title><p># Hi</p>'',
        emit (RenderTemplate (str ''index'') (str ''<p># Hi</p>'')) st)"
  by (simp add: renderTemplate_def Let_def byte_buildNav byte_env_fields ex_template)

lemma text_hashes:
  "utf8Encode (str ''# Hi'') = str ''# Hi''"
  "utf8Encode (str ''<title>index</title><p># Hi</p>'') = str ''<title>index</title><p># Hi</p>''"
  by (rule utf8Encode_ascii, simp add: str_def)+

lemma text_buildPage:
  "buildPage (byte_env text_files) (str ''/'') (str ''/app/pages/index.md'') stale_state
     = (Inr example_page, rendered_state (str ''/''))"
proof -
  have m: "str ''<p>'' @ str ''# Hi'' @ str ''</p>'' = str ''<p># Hi</p>''"
    by (simp add: str_def)
  have s: "str ''# Old'' \<noteq> str ''# Hi''" by (simp add: str_def)
  have t: "(if str ''/'' = [slash] then str ''index'' else slice1 (str ''/'')) = str ''index''"
    by (simp add: str_def slash_def)
  show ?thesis
    by (simp add: buildPage_def Let_def text_read byte_env_fields(4,5,6) text_hashes m s t
          text_renderTemplate cacheHit_def stale_state_def stale_page_def emit_def
          example_page_def rendered_state_def example_calls_def)
qed

lemma text_buildPage_legacy:
  "buildPage_legacy (byte_env text_files) (str ''/'') (str ''/app/pages/index.md'')
     stale_state_legacy
     = (Inr (str ''<title>index</title><p># Hi</p>''), rendered_state_legacy (str ''/''))"
proof -
  have m: "str ''<p>'' @ str ''# Hi'' @ str ''</p>'' = str ''<p># Hi</p>''"
    by (simp add: str_def)
  have s: "str ''# Old'' \<noteq> str ''# Hi''" by (simp add: str_def)
  have t: "(if str ''/'' = [slash] then str ''index'' else slice1 (str ''/'')) = str ''index''"
    by (simp add: str_def slash_def)
  have r: "renderTemplate_legacy (byte_env text_files) (str ''index'') (str ''<p># Hi</p>'')
             = str ''<title>index</title><p># Hi</p>''"
    by (simp add: renderTemplate_legacy_def Let_def byte_env_fields ex_template_legacy)
  show ?thesis
    by (simp add: buildPage_legacy_def Let_def text_read byte_env_fields(4,5,6) text_hashes
          m s t r
          cacheHit_legacy_def stale_state_legacy_def emit_legacy_def
          rendered_state_legacy_def example_cached_legacy_def)
qed

section \<open>Directory traversal\<close>

text \<open>
  Claim C1, as the code has it, for the hardened variant. A URL with \<open>../\<close> is decoded
  and normalised before it is resolved, so it may well name a document of the site. For
  every request, with the script in an absolute directory: either the answer is 400,
  403, 404 or 405 and the state is unchanged, so that no file has been read; or the
  sanitised path resolves to an existing file strictly within the content root, the
  answer is 200, 304 or 500, and the files read for the request are that resolved file,
  first, and after it at most the navigation file: \<open>nav.md\<close> in the directory of the
  script, a path that does not depend on the request.
\<close>

theorem handler_stays_within_content_root:
  assumes "isAbsolute (dirname e)" and "handler e req st = (resp, st')"
  shows "(status resp \<in> {400, 403, 404, 405} \<and> st' = st)
       \<or> (\<exists>cleanPath filePath rest.
              sanitiseUrl (url req) = Some cleanPath
            \<and> routeToFile e cleanPath = Some filePath
            \<and> existsSync e filePath
            \<and> within (pagesDir e) filePath
            \<and> status resp \<in> {200, 304, 500}
            \<and> calls st' = calls st @ ReadFile filePath # rest
            \<and> (\<forall>f. ReadFile f \<in> set rest \<longrightarrow> f = navFile e))"
  using handler_result [of e req st]
proof (elim disjE exE conjE)
  fix r
  assume "handler e req st = (r, st)" and "status r \<in> {400, 403, 404, 405}"
  with assms(2) show ?thesis by auto
next
  fix cleanPath filePath err s
  assume c: "sanitiseUrl (url req) = Some cleanPath"
    and f: "routeToFile e cleanPath = Some filePath" and ex: "existsSync e filePath"
    and b: "buildPage e cleanPath filePath st = (Inl err, s)"
    and h: "handler e req st
              = (\<lparr>status = 500, headers = [], body = str ''Internal Server Error''\<rparr>, s)"
  have w: "within (pagesDir e) filePath" by (rule routeToFile_within [OF assms(1) f])
  from h assms(2) have s: "st' = s" and st: "status resp = 500" by auto
  obtain rest where "calls st' = calls st @ ReadFile filePath # rest"
    and "\<forall>g. ReadFile g \<in> set rest \<longrightarrow> g = navFile e"
    using buildPage_reads [of e cleanPath filePath st] b s by auto
  with c f ex w st show ?thesis by auto
next
  fix cleanPath filePath pg s
  assume c: "sanitiseUrl (url req) = Some cleanPath"
    and f: "routeToFile e cleanPath = Some filePath" and ex: "existsSync e filePath"
    and b: "buildPage e cleanPath filePath st = (Inr pg, s)"
    and h: "handler e req st
              = (if if_none_match req = Some (etag pg)
                 then \<lparr>status = 304, headers = [], body = []\<rparr>
                 else \<lparr>status = 200, headers = okHeaders (etag pg), body = html pg\<rparr>, s)"
  have w: "within (pagesDir e) filePath" by (rule routeToFile_within [OF assms(1) f])
  from h assms(2) have s: "st' = s" and st: "status resp = 200 \<or> status resp = 304"
    by (auto split: if_splits)
  obtain rest where "calls st' = calls st @ ReadFile filePath # rest"
    and "\<forall>g. ReadFile g \<in> set rest \<longrightarrow> g = navFile e"
    using buildPage_reads [of e cleanPath filePath st] b s by auto
  with c f ex w st show ?thesis by auto
qed

text \<open>
  The theorem at \<open>GET /a/../index\<close>: the page comes from \<open>index.md\<close>, within the
  content root, and that file is the only one read.
\<close>

theorem handler_stays_within_content_root_witness:
  "isAbsolute (dirname example_env)
   \<and> handler example_env dotdot_request empty_state
       = (\<lparr>status = 200, headers = okHeaders (etag example_page), body = html example_page\<rparr>,
          rendered_state (str ''/index''))
   \<and> within (pagesDir example_env) (str ''/app/pages/index.md'')
   \<and> calls (rendered_state (str ''/index''))
       = calls empty_state @ ReadFile (str ''/app/pages/index.md'') # tl example_calls"
proof -
  from handler_stays_within_content_root [OF ex_absolute ex_handler(2)]
  have "\<exists>cleanPath filePath rest.
          sanitiseUrl (url dotdot_request) = Some cleanPath
        \<and> routeToFile example_env cleanPath = Some filePath
        \<and> within (pagesDir example_env) filePath
        \<and> calls (rendered_state (str ''/index''))
            = calls empty_state @ ReadFile filePath # rest"
    by auto
  then have "within (pagesDir example_env) (str ''/app/pages/index.md'')
      \<and> calls (rendered_state (str ''/index''))
          = calls empty_state @ ReadFile (str ''/app/pages/index.md'') # tl example_calls"
    by (auto simp: ex_sanitise ex_route rendered_state_def empty_state_def example_calls_def)
  with ex_absolute ex_handler(2) show ?thesis by simp
qed

text \<open>
  A URL that contains \<open>../\<close> is not always refused: \<open>/a/../index\<close> is answered with 200.
\<close>

theorem dotdot_request_is_served:
  "url dotdot_request = str ''/a/../index''
   \<and> status (fst (handler example_env dotdot_request empty_state)) = 200"
  by (simp add: ex_handler) (simp add: dotdot_request_def)

text \<open>
  The legacy variant compares prefixes of strings, and \<open>/app/pages-evil\<close> starts with
  \<open>/app/pages\<close>: it serves a file beside the content root, which the hardened variant
  refuses.
\<close>

lemma handler_legacy_serves_sibling_directory:
  "status (fst (handler_legacy sibling_env sibling_request empty_state_legacy)) = 200
   \<and> ReadFile (str ''/app/pages-evil/x.md'')
       \<in> set (calls_legacy (snd (handler_legacy sibling_env sibling_request empty_state_legacy)))
   \<and> \<not> within (pagesDir sibling_env) (str ''/app/pages-evil/x.md'')
   \<and> status (fst (handler sibling_env sibling_request empty_state)) = 403"
proof -
  have m: "http_method sibling_request = str ''GET''"
    by (simp add: sibling_request_def)
  obtain r s where b: "buildPage_legacy sibling_env (str ''/../pages-evil/x'')
      (str ''/app/pages-evil/x.md'') empty_state_legacy = (Inr r, s)"
    and c: "ReadFile (str ''/app/pages-evil/x.md'') \<in> set (calls_legacy s)"
    by (simp add: buildPage_legacy_def Let_def sibling_facts hashContent_def
          cacheHit_legacy_def empty_state_legacy_def emit_legacy_def)
  have m': "http_method sibling_request = str ''GET'' \<or> http_method sibling_request = str ''POST''"
    using m by simp
  have l: "handler_legacy sibling_env sibling_request empty_state_legacy
             = (\<lparr>status = 200, headers = okHeaders_legacy, body = r\<rparr>, s)"
    by (rule handler_legacy_page [OF m' sibling_sanitise sibling_route_legacy
          sibling_facts(4) b])
  have h: "handler sibling_env sibling_request empty_state
             = (\<lparr>status = 403, headers = [], body = str ''Forbidden''\<rparr>, empty_state)"
    by (rule handler_403 [OF m sibling_sanitise sibling_route])
  have w: "\<not> within (pagesDir sibling_env) (str ''/app/pages-evil/x.md'')"
    by (simp add: within_def sibling_facts segments_def str_def slash_def)
  from l h c w show ?thesis by simp
qed

section \<open>Cache hits\<close>

text \<open>
  Claim C2: when the route has a cached entry whose stored hash is the hash of the
  source as read now, \<open>buildPage\<close> returns the cached page unchanged, leaves the cache as
  it is, and calls nothing but the read of the source: no markdown conversion, no
  sanitization, no template substitution. The legacy variant returns the cached HTML.
\<close>

theorem buildPage_cache_hit:
  "(pageCache st route = Some cached \<and> readFileSync e filePath = Some md
      \<and> hash cached = hashContent e md
    \<longrightarrow> buildPage e route filePath st
          = (Inr cached, st\<lparr>calls := calls st @ [ReadFile filePath]\<rparr>))
   \<and> (pageCache_legacy sl route = Some cl \<and> readFileSync e filePath = Some md
        \<and> hash_legacy cl = hashContent e md
      \<longrightarrow> buildPage_legacy e route filePath sl
            = (Inr (html_legacy cl), sl\<lparr>calls_legacy := calls_legacy sl @ [ReadFile filePath]\<rparr>))"
  using buildPage_hit [of e filePath md st route cached]
    buildPage_legacy_hit [of e filePath md sl route cl]
  by (simp add: cacheHit_Some cacheHit_legacy_Some emit_def emit_legacy_def)

text \<open>
  The theorem at the example, after \<open>/\<close> has been rendered once.
\<close>

theorem buildPage_cache_hit_witness:
  "buildPage example_env (str ''/'') (str ''/app/pages/index.md'') (rendered_state (str ''/''))
     = (Inr example_page,
        (rendered_state (str ''/''))
          \<lparr>calls := calls (rendered_state (str ''/'')) @ [ReadFile (str ''/app/pages/index.md'')]\<rparr>)
   \<and> buildPage_legacy example_env (str ''/'') (str ''/app/pages/index.md'')
       (rendered_state_legacy (str ''/''))
     = (Inr (html_legacy example_cached_legacy),
        (rendered_state_legacy (str ''/''))
          \<lparr>calls_legacy := calls_legacy (rendered_state_legacy (str ''/''))
             @ [ReadFile (str ''/app/pages/index.md'')]\<rparr>)"
  using buildPage_cache_hit [where st = "rendered_state (str ''/'')" and route = "str ''/''"
      and cached = example_page and e = example_env and filePath = "str ''/app/pages/index.md''"
      and md = "str ''# Hi''" and sl = "rendered_state_legacy (str ''/'')"
      and cl = example_cached_legacy]
  by (simp add: rendered_state_def rendered_state_legacy_def ex_env_calls example_page_def
        example_cached_legacy_def)

section \<open>What the cache holds after a request\<close>

text \<open>
  Claim C3, as the code has it. The source is read as text and the text is hashed: with
  the file system given by the bytes of its files, and the digest taken of the UTF-8
  encoding of a string, after \<open>buildPage\<close> has succeeded the entry stored under the route
  has the digest of the decoded source, encoded again; when the bytes read are
  well-formed UTF-8 this is the digest of the bytes read. Either the entry was there
  already and the cache is unchanged, or the hash did not match and the entry under the
  route is replaced by a new one, built from this source alone (its HTML is the rendering
  of the current source, its ETag the quoted hash of that HTML); the other routes are
  untouched.
\<close>

theorem buildPage_stores_entry:
  assumes "\<forall>p. readFileSync e p = map_option utf8Decode (readBytes p)"
    and "\<forall>content. sha256hex e content = digest (utf8Encode content)"
  shows
  "(buildPage e route filePath st = (Inr pg, st') \<longrightarrow>
      (\<exists>bytes. readBytes filePath = Some bytes
         \<and> pageCache st' route = Some pg
         \<and> hash pg = digest (utf8Encode (utf8Decode bytes))
         \<and> (validUtf8 bytes \<longrightarrow> hash pg = digest bytes)
         \<and> (pageCache st route = Some pg \<and> pageCache st' = pageCache st
            \<or> cacheHit (pageCache st route) (hash pg) = None
              \<and> pageCache st' = (pageCache st)(route \<mapsto> pg)
              \<and> (\<exists>rawHtml htmlBody.
                    marked_parse e (utf8Decode bytes) = Some rawHtml
                  \<and> sanitizeHtml e rawHtml (pageOptions e) = Some htmlBody
                  \<and> html pg = fst (renderTemplate e
                                     (if route = [slash] then str ''index'' else slice1 route)
                                     htmlBody st)
                  \<and> etag pg = quote @ hashContent e (html pg) @ quote))))
   \<and> (buildPage_legacy e route filePath sl = (Inr fullHtml, sl') \<longrightarrow>
        (\<exists>bytes. readBytes filePath = Some bytes
           \<and> pageCache_legacy sl' route
               = Some \<lparr>hash_legacy = digest (utf8Encode (utf8Decode bytes)),
                       html_legacy = fullHtml\<rparr>
           \<and> (validUtf8 bytes \<longrightarrow>
                pageCache_legacy sl' route
                  = Some \<lparr>hash_legacy = digest bytes, html_legacy = fullHtml\<rparr>)
           \<and> (pageCache_legacy sl' = pageCache_legacy sl
              \<or> cacheHit_legacy (pageCache_legacy sl route)
                    (digest (utf8Encode (utf8Decode bytes))) = None
                \<and> pageCache_legacy sl' = (pageCache_legacy sl)
                     (route \<mapsto> \<lparr>hash_legacy = digest (utf8Encode (utf8Decode bytes)),
                                 html_legacy = fullHtml\<rparr>)
                \<and> (\<exists>htmlBody.
                      marked_parse e (utf8Decode bytes) = Some htmlBody
                    \<and> fullHtml = renderTemplate_legacy e
                        (if route = [slash] then str ''index'' else slice1 route) htmlBody))))"
proof (intro conjI impI)
  assume b: "buildPage e route filePath st = (Inr pg, st')"
  from buildPage_entry [OF b] obtain md where md: "readFileSync e filePath = Some md"
    and rest: "pageCache st' route = Some pg" "hash pg = hashContent e md"
      "pageCache st route = Some pg \<and> pageCache st' = pageCache st
       \<or> cacheHit (pageCache st route) (hashContent e md) = None
         \<and> pageCache st' = (pageCache st)(route \<mapsto> pg)
         \<and> (\<exists>rawHtml htmlBody.
               marked_parse e md = Some rawHtml
             \<and> sanitizeHtml e rawHtml (pageOptions e) = Some htmlBody
             \<and> html pg = fst (renderTemplate e
                                (if route = [slash] then str ''index'' else slice1 route)
                                htmlBody st)
             \<and> etag pg = quote @ hashContent e (html pg) @ quote)"
    by blast
  from md assms(1) obtain bytes where rb: "readBytes filePath = Some bytes"
    and dec: "md = utf8Decode bytes"
    by (cases "readBytes filePath") auto
  have h: "hash pg = digest (utf8Encode (utf8Decode bytes))"
    using rest(2) assms(2) by (simp add: hashContent_def dec)
  have v: "validUtf8 bytes \<longrightarrow> hash pg = digest bytes"
    using h by (simp add: utf8_roundtrip)
  have hc: "hashContent e (utf8Decode bytes) = hash pg" using rest(2) by (simp add: dec)
  show "\<exists>bytes. readBytes filePath = Some bytes
         \<and> pageCache st' route = Some pg
         \<and> hash pg = digest (utf8Encode (utf8Decode bytes))
         \<and> (validUtf8 bytes \<longrightarrow> hash pg = digest bytes)
         \<and> (pageCache st route = Some pg \<and> pageCache st' = pageCache st
            \<or> cacheHit (pageCache st route) (hash pg) = None
              \<and> pageCache st' = (pageCache st)(route \<mapsto> pg)
              \<and> (\<exists>rawHtml htmlBody.
                    marked_parse e (utf8Decode bytes) = Some rawHtml
                  \<and> sanitizeHtml e rawHtml (pageOptions e) = Some htmlBody
                  \<and> html pg = fst (renderTemplate e
                                     (if route = [slash] then str ''index'' else slice1 route)
                                     htmlBody st)
                  \<and> etag pg = quote @ hashContent e (html pg) @ quote))"
    using rb rest(1) h v rest(3) [unfolded dec, unfolded hc]
    by (intro exI [of _ bytes]) (simp only: simp_thms)
next
  assume b: "buildPage_legacy e route filePath sl = (Inr fullHtml, sl')"
  from buildPage_legacy_entry [OF b] obtain md where md: "readFileSync e filePath = Some md"
    and rest: "pageCache_legacy sl' route
               = Some \<lparr>hash_legacy = hashContent e md, html_legacy = fullHtml\<rparr>"
      "pageCache_legacy sl' = pageCache_legacy sl
       \<or> cacheHit_legacy (pageCache_legacy sl route) (hashContent e md) = None
         \<and> pageCache_legacy sl' = (pageCache_legacy sl)
              (route \<mapsto> \<lparr>hash_legacy = hashContent e md, html_legacy = fullHtml\<rparr>)
         \<and> (\<exists>htmlBody.
               marked_parse e md = Some htmlBody
             \<and> fullHtml = renderTemplate_legacy e
                 (if route = [slash] then str ''index'' else slice1 route) htmlBody)"
    by blast
  from md assms(1) obtain bytes where rb: "readBytes filePath = Some bytes"
    and dec: "md = utf8Decode bytes"
    by (cases "readBytes filePath") auto
  have hc: "hashContent e md = digest (utf8Encode (utf8Decode bytes))"
    using assms(2) by (simp add: hashContent_def dec)
  have v: "validUtf8 bytes \<longrightarrow> digest (utf8Encode (utf8Decode bytes)) = digest bytes"
    by (simp add: utf8_roundtrip)
  show "\<exists>bytes. readBytes filePath = Some bytes
           \<and> pageCache_legacy sl' route
               = Some \<lparr>hash_legacy = digest (utf8Encode (utf8Decode bytes)),
                       html_legacy = fullHtml\<rparr>
           \<and> (validUtf8 bytes \<longrightarrow>
                pageCache_legacy sl' route
                  = Some \<lparr>hash_legacy = digest bytes, html_legacy = fullHtml\<rparr>)
           \<and> (pageCache_legacy sl' = pageCache_legacy sl
              \<or> cacheHit_legacy (pageCache_legacy sl route)
                    (digest (utf8Encode (utf8Decode bytes))) = None
                \<and> pageCache_legacy sl' = (pageCache_legacy sl)
                     (route \<mapsto> \<lparr>hash_legacy = digest (utf8Encode (utf8Decode bytes)),
                                 html_legacy = fullHtml\<rparr>)
                \<and> (\<exists>htmlBody.
                      marked_parse e (utf8Decode bytes) = Some htmlBody
                    \<and> fullHtml = renderTemplate_legacy e
                        (if route = [slash] then str ''index'' else slice1 route) htmlBody))"
    using rb rest(1) [unfolded hc] v rest(2) [unfolded hc, unfolded dec]
    by (intro exI [of _ bytes]) auto
qed

text \<open>
  The theorem at a cache that holds an older rendering of \<open>/\<close>: the stale entry is
  replaced by the page of the current source, in both variants.
\<close>

theorem buildPage_stores_entry_witness:
  "pageCache stale_state (str ''/'') = Some stale_page
   \<and> buildPage (byte_env text_files) (str ''/'') (str ''/app/pages/index.md'') stale_state
       = (Inr example_page, rendered_state (str ''/''))
   \<and> pageCache (rendered_state (str ''/'')) = (pageCache stale_state)(str ''/'' \<mapsto> example_page)
   \<and> text_files (str ''/app/pages/index.md'') = Some [35, 32, 72, 105]
   \<and> validUtf8 [35, 32, 72, 105]
   \<and> hash example_page = bytes_digest [35, 32, 72, 105]
   \<and> hash stale_page \<noteq> hash example_page
   \<and> buildPage_legacy (byte_env text_files) (str ''/'') (str ''/app/pages/index.md'')
         stale_state_legacy
       = (Inr (str ''<title>index</title><p># Hi</p>''), rendered_state_legacy (str ''/''))
   \<and> pageCache_legacy (rendered_state_legacy (str ''/'')) (str ''/'')
       = Some \<lparr>hash_legacy = bytes_digest [35, 32, 72, 105],
               html_legacy = str ''<title>index</title><p># Hi</p>''\<rparr>"
proof -
  have f: "\<forall>p. readFileSync (byte_env text_files) p = map_option utf8Decode (text_files p)"
    by (simp add: byte_env_fields)
  have d: "\<forall>content. sha256hex (byte_env text_files) content
              = bytes_digest (utf8Encode content)"
    by (simp add: byte_env_fields)
  have tf: "text_files (str ''/app/pages/index.md'') = Some [35, 32, 72, 105]"
    by (simp add: text_files_def)
  have v: "validUtf8 [35, 32, 72, 105]" by (simp add: wellFormed_def)
  note t = buildPage_stores_entry [OF f d, where route = "str ''/''"
      and filePath = "str ''/app/pages/index.md''" and st = stale_state and pg = example_page
      and st' = "rendered_state (str ''/'')" and sl = stale_state_legacy
      and fullHtml = "str ''<title>index</title><p># Hi</p>''"
      and sl' = "rendered_state_legacy (str ''/'')"]
  from t text_buildPage tf v
  have h: "hash example_page = bytes_digest [35, 32, 72, 105]"
    by auto
  from t text_buildPage_legacy tf v
  have l: "pageCache_legacy (rendered_state_legacy (str ''/'')) (str ''/'')
       = Some \<lparr>hash_legacy = bytes_digest [35, 32, 72, 105],
               html_legacy = str ''<title>index</title><p># Hi</p>''\<rparr>"
    by auto
  have c: "pageCache stale_state (str ''/'') = Some stale_page"
    "pageCache (rendered_state (str ''/'')) = (pageCache stale_state)(str ''/'' \<mapsto> example_page)"
    "hash stale_page \<noteq> hash example_page"
    by (simp_all add: stale_state_def rendered_state_def stale_page_def example_page_def str_def)
  from h l c text_buildPage text_buildPage_legacy tf v show ?thesis by simp
qed

text \<open>
  For a file that is not well-formed UTF-8 the stored hash is not the hash of its bytes:
  \<open>23 20 FF\<close> is read as \<open># \<close> and U+FFFD, and what is hashed is \<open>23 20 EF BF BD\<close>.
  The digest of the example gives back the bytes it is given, so that two digests differ
  exactly when the hashed bytes do.
\<close>

theorem stored_hash_is_not_of_raw_bytes:
  "binary_files (str ''/app/pages/index.md'') = Some [35, 32, 255]
   \<and> \<not> isl (fst (buildPage (byte_env binary_files) (str ''/'') (str ''/app/pages/index.md'')
                    empty_state))
   \<and> map_option hash
        (pageCache (snd (buildPage (byte_env binary_files) (str ''/'')
                           (str ''/app/pages/index.md'') empty_state)) (str ''/''))
       = Some (bytes_digest [35, 32, 239, 191, 189])
   \<and> bytes_digest [35, 32, 239, 191, 189] \<noteq> bytes_digest [35, 32, 255]"
proof -
  have r: "readFileSync (byte_env binary_files) (str ''/app/pages/index.md'')
             = Some [35, 32, 65533]"
    by (simp add: byte_env_fields binary_files_def) (simp add: utf8_ev)
  show ?thesis
    by (simp add: buildPage_def Let_def r byte_env_fields(4,5,6) cacheHit_def empty_state_def
          emit_def case_prod_beta bytes_digest_def binary_files_def encodeStep_def)
qed

section \<open>Conditional requests\<close>

text \<open>
  Claim C4: in the hardened variant, a GET request that reaches the render stage, with
  the page built, is answered 304 with an empty body when its If-None-Match header is
  the stored ETag, and 200 with the full HTML when the header is absent or different.
\<close>

theorem handler_conditional_get:
  assumes "http_method req = str ''GET''"
    and "sanitiseUrl (url req) = Some cleanPath"
    and "routeToFile e cleanPath = Some filePath"
    and "existsSync e filePath"
    and "buildPage e cleanPath filePath st = (Inr pg, st')"
  shows "handler e req st =
           (if if_none_match req = Some (etag pg)
            then \<lparr>status = 304, headers = [], body = []\<rparr>
            else \<lparr>status = 200, headers = okHeaders (etag pg), body = html pg\<rparr>, st')"
  using assms by (rule handler_page)

text \<open>
  The theorem at \<open>GET /\<close> of the example, without the header.
\<close>

theorem handler_conditional_get_witness:
  "handler example_env index_request empty_state
     = (\<lparr>status = 200, headers = okHeaders (etag example_page), body = html example_page\<rparr>,
        rendered_state (str ''/''))"
proof -
  have m: "http_method index_request = str ''GET''" "if_none_match index_request = None"
    by (simp_all add: index_request_def)
  have b: "buildPage example_env (str ''/'') (str ''/app/pages/index.md'') empty_state
     = (Inr example_page, rendered_state (str ''/''))"
    by (simp add: ex_buildPage)
  show ?thesis
    using handler_conditional_get [OF m(1) ex_sanitise(1) ex_route(1) ex_env_calls(2) b]
    by (simp add: m)
qed

section \<open>The order of the guards\<close>

text \<open>
  Claim C5: the handler tests the method, the sanitizer, the resolver and the existence
  of the file in this order, and each failure gives one status: 405, 400, 403, 404;
  a failure of the read or of the rendering gives 500; otherwise 304 or 200. On 400,
  403, 404 and 405 nothing has been read or stored. The handler is a total function:
  every exception of the model ends in a response. The legacy variant also accepts POST
  and has no 304.
\<close>

theorem handler_status_order:
  "status (fst (handler e req st)) =
     (if http_method req \<noteq> str ''GET'' then 405
      else (case sanitiseUrl (url req) of
        None \<Rightarrow> 400
      | Some cleanPath \<Rightarrow>
          (case routeToFile e cleanPath of
            None \<Rightarrow> 403
          | Some filePath \<Rightarrow>
              if \<not> existsSync e filePath then 404
              else (case fst (buildPage e cleanPath filePath st) of
                Inl err \<Rightarrow> 500
              | Inr pg \<Rightarrow> if if_none_match req = Some (etag pg) then 304 else 200))))
   \<and> (status (fst (handler e req st)) \<in> {400, 403, 404, 405}
        \<longrightarrow> snd (handler e req st) = st)
   \<and> status (fst (handler_legacy e req sl)) =
     (if http_method req \<noteq> str ''GET'' \<and> http_method req \<noteq> str ''POST'' then 405
      else (case sanitiseUrl (url req) of
        None \<Rightarrow> 400
      | Some cleanPath \<Rightarrow>
          (case routeToFile_legacy e cleanPath of
            None \<Rightarrow> 403
          | Some filePath \<Rightarrow>
              if \<not> existsSync e filePath then 404
              else (case fst (buildPage_legacy e cleanPath filePath sl) of
                Inl err \<Rightarrow> 500
              | Inr fullHtml \<Rightarrow> 200))))
   \<and> (status (fst (handler_legacy e req sl)) \<in> {400, 403, 404, 405}
        \<longrightarrow> snd (handler_legacy e req sl) = sl)"
  using handler_status [of e req st] handler_legacy_status [of e req sl]
  by (intro conjI) (erule conjunct1, erule conjunct2, erule conjunct1, erule conjunct2)

text \<open>
  The theorem at \<open>GET /../../etc/passwd\<close> of the example: 404 in both variants, the
  state unchanged.
\<close>

theorem handler_status_order_witness:
  "status (fst (handler example_env traversal_request empty_state)) = 404
   \<and> snd (handler example_env traversal_request empty_state) = empty_state
   \<and> status (fst (handler_legacy example_env traversal_request empty_state_legacy)) = 404
   \<and> snd (handler_legacy example_env traversal_request empty_state_legacy) = empty_state_legacy"
proof -
  have m: "http_method traversal_request = str ''GET''"
    by (simp add: traversal_request_def)
  from handler_status_order [of example_env traversal_request empty_state empty_state_legacy]
  show ?thesis
    by (simp add: m ex_sanitise ex_route ex_route_legacy ex_env_calls)
qed

section \<open>The ETag\<close>

text \<open>
  Claim C8: in the hardened variant, a page built on a cache miss has as ETag the
  SHA-256 digest in hexadecimal of its fully rendered HTML, the output of the template
  and not the markdown source, between double quotes.
\<close>

theorem buildPage_etag_of_rendered_html:
  assumes "buildPage e route filePath st = (Inr pg, st')"
    and "readFileSync e filePath = Some md"
    and "cacheHit (pageCache st route) (hashContent e md) = None"
  shows "etag pg = quote @ sha256hex e (html pg) @ quote
       \<and> quote = str [CHR 0x22]
       \<and> (\<exists>rawHtml htmlBody.
             marked_parse e md = Some rawHtml
           \<and> sanitizeHtml e rawHtml (pageOptions e) = Some htmlBody
           \<and> html pg = fst (renderTemplate e
                              (if route = [slash] then str ''index'' else slice1 route)
                              htmlBody st))
       \<and> pageCache st' route = Some pg"
  using buildPage_miss [OF assms]
  by (auto simp: hashContent_def quote_def str_def)

text \<open>
  The theorem at the first request for \<open>/\<close> of the example.
\<close>

theorem buildPage_etag_witness:
  "buildPage example_env (str ''/'') (str ''/app/pages/index.md'') empty_state
     = (Inr example_page, rendered_state (str ''/''))
   \<and> cacheHit (pageCache empty_state (str ''/'')) (hashContent example_env (str ''# Hi'')) = None
   \<and> etag example_page = quote @ sha256hex example_env (html example_page) @ quote"
proof -
  have b: "buildPage example_env (str ''/'') (str ''/app/pages/index.md'') empty_state
     = (Inr example_page, rendered_state (str ''/''))"
    by (simp add: ex_buildPage)
  have c: "cacheHit (pageCache empty_state (str ''/'')) (hashContent example_env (str ''# Hi''))
             = None"
    by (simp add: cacheHit_def empty_state_def)
  from buildPage_etag_of_rendered_html [OF b ex_env_calls(1) c] b c show ?thesis by simp
qed

section \<open>Template substitution\<close>

text \<open>
  Claim C9: every occurrence of a placeholder in the template is replaced, not only the
  first. The legacy variant uses \<open>replace\<close>, which changes the first occurrence only: with
  the title twice in the template, the second \<open>{{title}}\<close> stays. The hardened variant,
  with \<open>replaceAll\<close>, replaces both.
\<close>

theorem renderTemplate_legacy_replaces_first_only:
  "renderTemplate_legacy twice_env (str ''index'') (str ''<p># Hi</p>'') = str ''index {{title}}''
   \<and> fst (renderTemplate twice_env (str ''index'') (str ''<p># Hi</p>'') empty_state)
       = str ''index index''"
proof -
  have t: "template twice_env = str ''{{title}} {{title}}''" "COPYDATE twice_env = str ''2026''"
    by (simp_all add: twice_env_def example_env_def)
  have l: "replace (replace (replace (replace (replace (str ''{{title}} {{title}}'')
              (str ''{{site}}'') SITE_NAME) (str ''{{author}}'') AUTHOR)
              (str ''{{copydate}}'') (str ''2026'')) (str ''{{title}}'') (str ''index''))
              (str ''{{content}}'') (str ''<p># Hi</p>'') = str ''index {{title}}''"
    by (simp add: replace_ev)
  have h: "replaceAll (replaceAll (replaceAll (replaceAll (replaceAll (replaceAll
              (str ''{{title}} {{title}}'')
              (str ''{{site}}'') SITE_NAME) (str ''{{author}}'') AUTHOR)
              (str ''{{copydate}}'') (str ''2026'')) (str ''{{title}}'') (str ''index''))
              (str ''{{nav}}'') []) (str ''{{content}}'') (str ''<p># Hi</p>'')
           = str ''index index''"
    by (simp add: replace_ev)
  show ?thesis
    by (simp add: renderTemplate_legacy_def renderTemplate_def Let_def t l h twice_buildNav)
qed

text \<open>
  In both variants the replacement text is expanded: a body that holds \<open>$&\<close> (as in
  \<open>$&amp;\<close>) brings the placeholder itself back into the page.
\<close>

lemma renderTemplate_expands_dollar_patterns:
  "fst (renderTemplate example_env (str ''index'') (str ''<p>$&amp;</p>'') empty_state)
     = str ''<title>index</title><p>{{content}}amp;</p>''"
proof -
  have t: "template example_env = str ''<title>{{title}}</title>{{content}}''"
    "COPYDATE example_env = str ''2026''"
    by (simp_all add: example_env_def)
  have h: "replaceAll (replaceAll (replaceAll (replaceAll (replaceAll (replaceAll
              (str ''<title>{{title}}</title>{{content}}'')
              (str ''{{site}}'') SITE_NAME) (str ''{{author}}'') AUTHOR)
              (str ''{{copydate}}'') (str ''2026'')) (str ''{{title}}'') (str ''index''))
              (str ''{{nav}}'') []) (str ''{{content}}'') (str ''<p>$&amp;</p>'')
           = str ''<title>index</title><p>{{content}}amp;</p>''"
    by (simp add: replace_ev)
  show ?thesis
    by (simp add: renderTemplate_def Let_def t h ex_buildNav)
qed

section \<open>The navigation file and the cache\<close>

text \<open>
  Claim C10: the cache is validated by the hash of the source document alone. After a
  request answered 200, if the file system changes in the navigation file only, the
  same request gets the same response, byte for byte, with the navigation of the first
  rendering; the cache is unchanged, and the only file read is the source document.
\<close>

theorem nav_change_keeps_cached_page:
  assumes "isAbsolute (dirname e1)"
    and "handler e1 req st = (resp, st1)" and "status resp = 200"
    and "e2 = e1\<lparr>existsSync := ex2, readFileSync := rd2\<rparr>"
    and "\<forall>f. f \<noteq> navFile e1 \<longrightarrow> ex2 f = existsSync e1 f \<and> rd2 f = readFileSync e1 f"
  shows "fst (handler e2 req st1) = resp
       \<and> pageCache (snd (handler e2 req st1)) = pageCache st1
       \<and> (\<exists>filePath. filePath \<noteq> navFile e1
            \<and> calls (snd (handler e2 req st1)) = calls st1 @ [ReadFile filePath])"
proof -
  from handler_result [of e1 req st] assms(2,3)
  obtain cleanPath filePath pg where get: "http_method req = str ''GET''"
    and c: "sanitiseUrl (url req) = Some cleanPath"
    and f: "routeToFile e1 cleanPath = Some filePath"
    and ex: "existsSync e1 filePath"
    and b1: "buildPage e1 cleanPath filePath st = (Inr pg, st1)"
    and h: "(resp, st1) = (if if_none_match req = Some (etag pg)
                 then \<lparr>status = 304, headers = [], body = []\<rparr>
                 else \<lparr>status = 200, headers = okHeaders (etag pg), body = html pg\<rparr>, st1)"
    by (elim disjE exE conjE) auto
  from h assms(3)
  have resp: "resp = \<lparr>status = 200, headers = okHeaders (etag pg), body = html pg\<rparr>"
    and inm: "if_none_match req \<noteq> Some (etag pg)"
    by (auto split: if_splits)
  from b1 obtain md where md: "readFileSync e1 filePath = Some md"
    using buildPage_ok_read by blast
  have cached: "pageCache st1 cleanPath = Some pg" "hash pg = hashContent e1 md"
    using buildPage_result_cached [OF b1 md] by auto
  have nn: "filePath \<noteq> navFile e1"
    by (rule routeToFile_not_navFile [OF assms(1) f])
  have f2: "routeToFile e2 cleanPath = Some filePath"
    using f routeToFile_same_dirs [of e2 e1 cleanPath] by (simp add: assms(4))
  have ex2: "existsSync e2 filePath" using assms(5) nn ex by (simp add: assms(4))
  have md2: "readFileSync e2 filePath = Some md" using assms(5) nn md by (simp add: assms(4))
  have h2: "hashContent e2 md = hashContent e1 md" by (simp add: assms(4) hashContent_def)
  have hit: "cacheHit (pageCache st1 cleanPath) (hashContent e2 md) = Some pg"
    using cached h2 by (simp add: cacheHit_def)
  have b2: "buildPage e2 cleanPath filePath st1 = (Inr pg, emit (ReadFile filePath) st1)"
    by (rule buildPage_hit [OF md2 hit])
  have "handler e2 req st1 = (resp, emit (ReadFile filePath) st1)"
    using handler_page [OF get c f2 ex2 b2] inm resp by simp
  with nn show ?thesis by (auto simp: emit_def)
qed

text \<open>
  The theorem at the example: \<open>/\<close> is rendered without navigation, then a navigation
  file appears, and the response stays the same.
\<close>

theorem nav_change_witness:
  "handler example_env index_request empty_state
     = (\<lparr>status = 200, headers = okHeaders (etag example_page), body = html example_page\<rparr>,
        rendered_state (str ''/''))
   \<and> \<not> existsSync example_env (navFile example_env)
   \<and> existsSync nav_env (navFile example_env)
   \<and> fst (handler nav_env index_request (rendered_state (str ''/'')))
       = \<lparr>status = 200, headers = okHeaders (etag example_page), body = html example_page\<rparr>
   \<and> pageCache (snd (handler nav_env index_request (rendered_state (str ''/''))))
       = pageCache (rendered_state (str ''/''))"
proof -
  have s: "status \<lparr>status = 200, headers = okHeaders (etag example_page),
                   body = html example_page\<rparr> = 200"
    by simp
  have same: "\<forall>f. f \<noteq> navFile example_env
                \<longrightarrow> nav_exists f = existsSync example_env f
                  \<and> nav_read f = readFileSync example_env f"
    unfolding ex_navFile by (simp add: nav_exists_def nav_read_def example_env_def)
  have n: "\<not> existsSync example_env (navFile example_env)"
    "existsSync nav_env (navFile example_env)"
    by (simp_all add: ex_navFile nav_env_def nav_exists_def) (simp add: example_env_def str_def)
  from nav_change_keeps_cached_page [OF ex_absolute ex_handler(1) s nav_env_def same] n
    ex_handler(1)
  show ?thesis by simp
qed

end
